theory Spec2Isabelle
  imports Complex_Main "HOL-Library.Char_ord" "HOL-Library.List_Lexorder" "HOL-Library.Multiset"
begin

section \<open>Store monitoring: time model\<close>

text \<open>
  Python's \<^verbatim>\<open>datetime\<close> has a resolution of one microsecond. An absolute instant is
  modelled as the number of microseconds since the epoch (1970-01-01T00:00 UTC), a naive
  wall-clock reading as the same count read off a local clock, a calendar date as the
  number of days since 1970-01-01 and a time of day as microseconds since midnight.
  The year range of \<^verbatim>\<open>datetime\<close> (1 to 9999) is not modelled.
\<close>

type_synonym datetime = int
type_synonym naive_datetime = int
type_synonym date = int
type_synonym time_of_day = int
type_synonym timedelta = int

definition timedelta_hours :: "int \<Rightarrow> timedelta" where
  "timedelta_hours n = n * 3600000000"

definition timedelta_days :: "int \<Rightarrow> timedelta" where
  "timedelta_days n = n * 86400000000"

section \<open>Python floats\<close>

text \<open>
  A Python float is an IEEE 754 double. A finite double is modelled by the rational number
  it denotes, and an operation on floats by the exact operation on rationals followed by
  rounding to the nearest double, a tie going to the even mantissa
  (\<open>round_to_double\<close>). The nearest double of \<open>x\<close> is \<open>m * 2 ^ e\<close> where \<open>e\<close> is the
  exponent with \<open>2 ^ 52 \<le> \<bar>x\<bar> / 2 ^ e < 2 ^ 53\<close> and \<open>m\<close> is \<open>x / 2 ^ e\<close> rounded half to even.
  The exponent is found by scaling with the powers \<open>2 ^ 1024, 2 ^ 512, ..., 2\<close>. Overflow to
  infinity and gradual underflow (magnitudes from \<open>2 ^ 1024\<close> and below \<open>2 ^ - 1022\<close>) are not
  modelled; seconds within the \<^verbatim>\<open>datetime\<close> range are far from both.
\<close>

type_synonym pyfloat = rat

definition round_half_even :: "rat \<Rightarrow> int" where
  "round_half_even x =
     (let f = \<lfloor>x\<rfloor>; d = x - of_int f
      in if d < 1 / 2 then f else if 1 / 2 < d then f + 1
         else if even f then f else f + 1)"

definition pow2 :: "int \<Rightarrow> rat" where
  "pow2 e = (if 0 \<le> e then 2 ^ nat e else 1 / 2 ^ nat (- e))"

fun scale_down :: "nat list \<Rightarrow> rat \<times> int \<Rightarrow> rat \<times> int" where
  "scale_down [] (x, e) = (x, e)"
| "scale_down (k # ks) (x, e) =
     (if 4503599627370496 \<le> x / 2 ^ k then scale_down ks (x / 2 ^ k, e + int k)
      else scale_down ks (x, e))"

fun scale_up :: "nat list \<Rightarrow> rat \<times> int \<Rightarrow> rat \<times> int" where
  "scale_up [] (x, e) = (x, e)"
| "scale_up (k # ks) (x, e) =
     (if x * 2 ^ k < 9007199254740992 then scale_up ks (x * 2 ^ k, e - int k)
      else scale_up ks (x, e))"

definition shifts :: "nat list" where
  "shifts = [1024, 512, 256, 128, 64, 32, 16, 8, 4, 2, 1]"

definition float_exponent :: "rat \<Rightarrow> int" where
  "float_exponent x = snd (scale_up shifts (scale_down shifts (x, 0)))"

definition round_to_double :: "rat \<Rightarrow> pyfloat" where
  "round_to_double x =
     (if x = 0 then 0
      else (let e = float_exponent \<bar>x\<bar>
            in of_int (round_half_even (x / pow2 e)) * pow2 e))"

text \<open>\<^verbatim>\<open>a + b\<close> and \<^verbatim>\<open>a / b\<close> on floats (an \<^verbatim>\<open>int\<close> operand is converted first; the
  divisors in this program are the constants 60, 3600.0 and 10 ** 6).\<close>

definition float_add :: "pyfloat \<Rightarrow> pyfloat \<Rightarrow> pyfloat" where
  "float_add a b = round_to_double (a + b)"

definition float_div :: "pyfloat \<Rightarrow> pyfloat \<Rightarrow> pyfloat" where
  "float_div a b = round_to_double (a / b)"

text \<open>\<^verbatim>\<open>int(x)\<close> truncates towards zero. \<^verbatim>\<open>round(x, 2)\<close> takes the multiple of 1/100 nearest
  to the exact value of the float \<open>x\<close>, a tie going to the even multiple, and returns the
  double nearest to it.\<close>

definition py_int :: "pyfloat \<Rightarrow> int" where
  "py_int x = (if 0 \<le> x then \<lfloor>x\<rfloor> else \<lceil>x\<rceil>)"

definition nearest_hundredth :: "rat \<Rightarrow> rat" where
  "nearest_hundredth x = of_int (round_half_even (x * 100)) / 100"

definition py_round2 :: "pyfloat \<Rightarrow> pyfloat" where
  "py_round2 x = round_to_double (nearest_hundredth x)"

text \<open>\<^verbatim>\<open>timedelta.total_seconds()\<close>: the microseconds divided by \<^verbatim>\<open>10 ** 6\<close>, as a float.\<close>

definition total_seconds :: "timedelta \<Rightarrow> pyfloat" where
  "total_seconds d = float_div (of_int d) 1000000"

section \<open>Dates and zones\<close>

text \<open>\<^verbatim>\<open>datetime.date()\<close>, \<^verbatim>\<open>date.weekday()\<close> (Monday is 0; 1970-01-01 was a Thursday)
  and \<^verbatim>\<open>datetime.combine\<close>.\<close>

definition date_of :: "naive_datetime \<Rightarrow> date" where
  "date_of dt = dt div 86400000000"

definition weekday :: "date \<Rightarrow> int" where
  "weekday d = (d + 3) mod 7"

definition combine :: "date \<Rightarrow> time_of_day \<Rightarrow> naive_datetime" where
  "combine d t = d * 86400000000 + t"

text \<open>
  The time zone database belongs to the \<^verbatim>\<open>pytz\<close> package, not to the repository, so it is
  a parameter. A zone gives the UTC offset in force at a UTC instant (used by
  \<^verbatim>\<open>astimezone\<close>) and the offset that \<^verbatim>\<open>tz.localize\<close> attaches to a naive wall-clock
  reading; offsets are in microseconds.
\<close>

record tzinfo =
  utcoffset_at_utc :: "datetime \<Rightarrow> timedelta"
  utcoffset_at_local :: "naive_datetime \<Rightarrow> timedelta"

record pytz =
  all_timezones :: "string list"
  timezone :: "string \<Rightarrow> tzinfo option"

datatype error = UnknownTimeZoneError string | StoreFailure string

text \<open>\<^verbatim>\<open>tz.localize(naive).astimezone(UTC)\<close>\<close>

definition localize_to_utc :: "tzinfo \<Rightarrow> naive_datetime \<Rightarrow> datetime" where
  "localize_to_utc tz naive = naive - utcoffset_at_local tz naive"

section \<open>Tables\<close>

record StoreStatus =
  store_id :: string
  timestamp_utc :: datetime
  status :: string

record BusinessHours =
  bh_store_id :: string
  day_of_week :: int
  start_time_local :: time_of_day
  end_time_local :: time_of_day

record StoreTimezone =
  tz_store_id :: string
  timezone_str :: string

record session =
  store_status :: "StoreStatus list"
  business_hours :: "BusinessHours list"
  store_timezone :: "StoreTimezone list"

section \<open>app/core/time\_utils.py\<close>

text \<open>The query's \<^verbatim>\<open>.scalar()\<close> yields the first matching row's column or \<^verbatim>\<open>None\<close>;
  the column \<^verbatim>\<open>store_id\<close> of the table is declared unique.\<close>

definition get_store_timezone_str :: "pytz \<Rightarrow> session \<Rightarrow> string \<Rightarrow> string" where
  "get_store_timezone_str P db sid =
     (case filter (\<lambda>r. tz_store_id r = sid) (store_timezone db) of
        [] \<Rightarrow> ''America/Chicago''
      | r # _ \<Rightarrow>
          (if timezone_str r = [] \<or> timezone_str r \<notin> set (all_timezones P)
           then ''America/Chicago'' else timezone_str r))"

text \<open>Every instant of the model is already a UTC instant: a naive \<^verbatim>\<open>datetime\<close> is read
  as UTC and an aware one denotes the same instant after conversion.\<close>

definition to_aware_utc :: "datetime \<Rightarrow> datetime" where
  "to_aware_utc dt = dt"

definition utc_to_local :: "pytz \<Rightarrow> datetime \<Rightarrow> string \<Rightarrow> error + naive_datetime" where
  "utc_to_local P utc_dt tz_str =
     (case timezone P tz_str of
        None \<Rightarrow> Inl (UnknownTimeZoneError tz_str)
      | Some tz \<Rightarrow> Inr (to_aware_utc utc_dt + utcoffset_at_utc tz (to_aware_utc utc_dt)))"

text \<open>A \<^verbatim>\<open>dict\<close> from weekday to a list of rules is an association list with distinct keys,
  in insertion order.\<close>

type_synonym rule = "time_of_day \<times> time_of_day"
type_synonym bh_dict = "(int \<times> rule list) list"

definition dict_get :: "bh_dict \<Rightarrow> int \<Rightarrow> rule list" where
  "dict_get m k = (case map_of m k of None \<Rightarrow> [] | Some rs \<Rightarrow> rs)"

fun dict_append :: "bh_dict \<Rightarrow> int \<Rightarrow> rule \<Rightarrow> bh_dict" where
  "dict_append [] k r = [(k, [r])]"
| "dict_append ((k', rs) # m) k r =
     (if k' = k then (k', rs @ [r]) # m else (k', rs) # dict_append m k r)"

definition get_business_hours_map :: "session \<Rightarrow> string \<Rightarrow> bh_dict" where
  "get_business_hours_map db sid =
     (let rows = filter (\<lambda>r. bh_store_id r = sid) (business_hours db)
      in if rows = [] then []
         else foldl (\<lambda>m r. dict_append m (day_of_week r) (start_time_local r, end_time_local r))
                [] rows)"

type_synonym interval = "datetime \<times> datetime"

text \<open>\<^verbatim>\<open>merge_utc_intervals\<close>: the sweep over \<^verbatim>\<open>intervals[1:]\<close>, with \<^verbatim>\<open>merged\<close> as
  accumulator.\<close>

fun merge_sweep :: "interval list \<Rightarrow> interval list \<Rightarrow> interval list" where
  "merge_sweep merged [] = merged"
| "merge_sweep merged ((s, e) # rest) =
     (case last merged of (last_s, last_e) \<Rightarrow>
        if s \<le> last_e
        then merge_sweep (butlast merged @ [(last_s, max last_e e)]) rest
        else merge_sweep (merged @ [(s, e)]) rest)"

definition merge_utc_intervals :: "interval list \<Rightarrow> interval list" where
  "merge_utc_intervals intervals =
     (if intervals = [] then []
      else (let sorted_intervals = sort_key fst intervals
            in merge_sweep [hd sorted_intervals] (tl sorted_intervals)))"

text \<open>The body of the loop over \<^verbatim>\<open>day_rules\<close>: the UTC interval of one rule on one date
  (\<^verbatim>\<open>s_utc\<close>, \<^verbatim>\<open>e_utc\<close>), and its clipping to the window.\<close>

definition rule_interval_utc :: "tzinfo \<Rightarrow> date \<Rightarrow> rule \<Rightarrow> interval" where
  "rule_interval_utc tz cur_date r =
     (case r of (start_t, end_t) \<Rightarrow>
        if start_t = end_t \<and> end_t = 0
        then (localize_to_utc tz (combine cur_date 0),
              localize_to_utc tz (combine (cur_date + 1) 0))
        else if start_t \<le> end_t
        then (localize_to_utc tz (combine cur_date start_t),
              localize_to_utc tz (combine cur_date end_t))
        else (localize_to_utc tz (combine cur_date start_t),
              localize_to_utc tz (combine (cur_date + 1) end_t)))"

definition clip_to_window :: "datetime \<Rightarrow> datetime \<Rightarrow> interval \<Rightarrow> interval list" where
  "clip_to_window window_start_utc window_end_utc i =
     (case i of (s_utc, e_utc) \<Rightarrow>
        if e_utc > window_start_utc \<and> s_utc < window_end_utc
        then (let clipped_start = max s_utc window_start_utc;
                  clipped_end = min e_utc window_end_utc
              in if clipped_start < clipped_end then [(clipped_start, clipped_end)] else [])
        else [])"

definition day_intervals :: "tzinfo \<Rightarrow> bh_dict \<Rightarrow> datetime \<Rightarrow> datetime \<Rightarrow> date \<Rightarrow> interval list" where
  "day_intervals tz bh_map window_start_utc window_end_utc cur_date =
     (let dow = weekday cur_date;
          day_rules = dict_get bh_map dow
      in concat (map (\<lambda>r. clip_to_window window_start_utc window_end_utc
                             (rule_interval_utc tz cur_date r)) day_rules))"

definition expand_business_hours_to_utc ::
  "pytz \<Rightarrow> string \<Rightarrow> bh_dict \<Rightarrow> datetime \<Rightarrow> datetime \<Rightarrow> error + interval list" where
  "expand_business_hours_to_utc P tz_str bh_map window_start window_end =
     (let window_start_utc = to_aware_utc window_start;
          window_end_utc = to_aware_utc window_end
      in if bh_map = [] then Inr [(window_start_utc, window_end_utc)]
         else
           (case timezone P tz_str of
              None \<Rightarrow> Inl (UnknownTimeZoneError tz_str)
            | Some tz \<Rightarrow>
               (case utc_to_local P window_start_utc tz_str of
                  Inl err \<Rightarrow> Inl err
                | Inr local_start \<Rightarrow>
                   (case utc_to_local P window_end_utc tz_str of
                      Inl err \<Rightarrow> Inl err
                    | Inr local_end \<Rightarrow>
                       (let start_date = date_of local_start - 1;
                            end_date = date_of local_end + 1;
                            intervals_utc =
                              concat (map (day_intervals tz bh_map window_start_utc window_end_utc)
                                        [start_date..end_date])
                        in Inr (merge_utc_intervals intervals_utc))))))"

section \<open>app/core/uptime.py\<close>

type_synonym segment = "datetime \<times> datetime \<times> string"

text \<open>The query of \<^verbatim>\<open>_status_segments\<close>: the store's rows with a timestamp up to the window
  end, ordered by timestamp.\<close>

definition query_observations :: "session \<Rightarrow> string \<Rightarrow> datetime \<Rightarrow> StoreStatus list" where
  "query_observations db sid we =
     sort_key timestamp_utc
       (filter (\<lambda>r. store_id r = sid \<and> timestamp_utc r \<le> we) (store_status db))"

text \<open>First loop: the last observation at or before the window start, and the
  observations inside the window.\<close>

fun partition_obs ::
  "datetime \<Rightarrow> datetime \<Rightarrow> StoreStatus list \<Rightarrow> StoreStatus option \<Rightarrow> StoreStatus list
     \<Rightarrow> StoreStatus option \<times> StoreStatus list" where
  "partition_obs ws we [] prev_obs window_obs = (prev_obs, window_obs)"
| "partition_obs ws we (obs # rest) prev_obs window_obs =
     (let obs_time = to_aware_utc (timestamp_utc obs)
      in if obs_time \<le> ws then partition_obs ws we rest (Some obs) window_obs
         else if obs_time \<le> we then partition_obs ws we rest prev_obs (window_obs @ [obs])
         else partition_obs ws we rest prev_obs window_obs)"

text \<open>Second loop: a segment is closed at every change of status.\<close>

fun sweep_obs ::
  "StoreStatus list \<Rightarrow> segment list \<Rightarrow> datetime \<Rightarrow> string \<Rightarrow> segment list \<times> datetime \<times> string" where
  "sweep_obs [] segments current_time current_status = (segments, current_time, current_status)"
| "sweep_obs (obs # rest) segments current_time current_status =
     (let obs_time = to_aware_utc (timestamp_utc obs)
      in if status obs \<noteq> current_status
         then sweep_obs rest (segments @ [(current_time, obs_time, current_status)])
                obs_time (status obs)
         else sweep_obs rest segments current_time current_status)"

text \<open>Which of the three branches fixes the status at the window start.\<close>

datatype initial_branch = FromPrevObs | FromFirstWindowObs | FromLastObs

definition initial_status ::
  "StoreStatus list \<Rightarrow> StoreStatus option \<Rightarrow> StoreStatus list \<Rightarrow> initial_branch \<times> string" where
  "initial_status all_obs prev_obs window_obs =
     (case prev_obs of
        Some p \<Rightarrow> (FromPrevObs, status p)
      | None \<Rightarrow>
          (if window_obs \<noteq> [] then (FromFirstWindowObs, status (hd window_obs))
           else (FromLastObs, status (last all_obs))))"

definition segments_of_obs :: "StoreStatus list \<Rightarrow> datetime \<Rightarrow> datetime \<Rightarrow> segment list" where
  "segments_of_obs all_obs ws we =
     (if all_obs = [] then [(ws, we, ''inactive'')]
      else
        (case partition_obs ws we all_obs None [] of (prev_obs, window_obs) \<Rightarrow>
           (case sweep_obs window_obs [] ws (snd (initial_status all_obs prev_obs window_obs)) of
              (segments, current_time, current_status) \<Rightarrow>
                if current_time < we then segments @ [(current_time, we, current_status)]
                else segments)))"

definition status_segments :: "session \<Rightarrow> string \<Rightarrow> datetime \<Rightarrow> datetime \<Rightarrow> segment list" where
  "status_segments db sid window_start_utc window_end_utc =
     (let ws = to_aware_utc window_start_utc;
          we = to_aware_utc window_end_utc
      in segments_of_obs (query_observations db sid we) ws we)"

definition overlap_step :: "segment \<Rightarrow> pyfloat \<times> pyfloat \<Rightarrow> interval \<Rightarrow> pyfloat \<times> pyfloat" where
  "overlap_step seg acc bh =
     (case seg of (seg_s, seg_e, state) \<Rightarrow>
      case acc of (up, down) \<Rightarrow>
      case bh of (bh_s, bh_e) \<Rightarrow>
        (let s = max seg_s bh_s; e = min seg_e bh_e
         in if s \<ge> e then (up, down)
            else (let dur = total_seconds (e - s)
                  in if state = ''active'' then (float_add up dur, down)
                     else (up, float_add down dur))))"

definition accumulate_overlaps :: "segment list \<Rightarrow> interval list \<Rightarrow> pyfloat \<times> pyfloat" where
  "accumulate_overlaps segs bh_intervals_utc =
     foldl (\<lambda>acc seg. foldl (overlap_step seg) acc bh_intervals_utc) (0, 0) segs"

record metrics =
  uptime_last_hour :: int
  downtime_last_hour :: int
  uptime_last_day :: pyfloat
  downtime_last_day :: pyfloat
  uptime_last_week :: pyfloat
  downtime_last_week :: pyfloat

text \<open>The body of the loop over the three windows, up to the seconds \<^verbatim>\<open>(up_s, down_s)\<close>.\<close>

definition window_seconds ::
  "pytz \<Rightarrow> session \<Rightarrow> string \<Rightarrow> string \<Rightarrow> bh_dict \<Rightarrow> datetime \<Rightarrow> datetime
     \<Rightarrow> error + pyfloat \<times> pyfloat" where
  "window_seconds P db sid tz_str bh_map ws we =
     (case expand_business_hours_to_utc P tz_str bh_map ws we of
        Inl err \<Rightarrow> Inl err
      | Inr bh_intervals_utc \<Rightarrow>
          if bh_intervals_utc = [] then Inr (0, 0)
          else Inr (accumulate_overlaps (status_segments db sid ws we) bh_intervals_utc))"

definition metrics_for_store :: "pytz \<Rightarrow> session \<Rightarrow> string \<Rightarrow> datetime \<Rightarrow> error + metrics" where
  "metrics_for_store P db sid now =
     (let now_utc = to_aware_utc now;
          tz_str = get_store_timezone_str P db sid;
          bh_map = get_business_hours_map db sid
      in case window_seconds P db sid tz_str bh_map (now_utc - timedelta_hours 1) now_utc of
           Inl err \<Rightarrow> Inl err
         | Inr (up_h, down_h) \<Rightarrow>
        (case window_seconds P db sid tz_str bh_map (now_utc - timedelta_days 1) now_utc of
           Inl err \<Rightarrow> Inl err
         | Inr (up_d, down_d) \<Rightarrow>
        (case window_seconds P db sid tz_str bh_map (now_utc - timedelta_days 7) now_utc of
           Inl err \<Rightarrow> Inl err
         | Inr (up_w, down_w) \<Rightarrow>
             Inr \<lparr> uptime_last_hour = py_int (float_div up_h 60),
                   downtime_last_hour = py_int (float_div down_h 60),
                   uptime_last_day = py_round2 (float_div up_d 3600),
                   downtime_last_day = py_round2 (float_div down_d 3600),
                   uptime_last_week = py_round2 (float_div up_w 3600),
                   downtime_last_week = py_round2 (float_div down_w 3600) \<rparr>)))"

section \<open>app/core/report\_generator.py\<close>

record report_row =
  row_store_id :: string
  row_metrics :: metrics

text \<open>
  \<^verbatim>\<open>generate_report_optimized\<close>: the futures are handled in the order in which they complete,
  which is some arrangement \<open>completed\<close> of the submitted store ids; \<open>result\<close> is what
  \<^verbatim>\<open>future.result()\<close> gives for a store, the metrics or the exception raised by
  \<^verbatim>\<open>process_store\<close>. The function's outcome is the sorted rows handed to the CSV writer
  and the list of failed stores.
\<close>

fun collect_results ::
  "(string \<Rightarrow> error + metrics) \<Rightarrow> string list \<Rightarrow> report_row list \<Rightarrow> string list
     \<Rightarrow> report_row list \<times> string list" where
  "collect_results result [] results failed_stores = (results, failed_stores)"
| "collect_results result (sid # rest) results failed_stores =
     (case result sid of
        Inr m \<Rightarrow>
          collect_results result rest
            (results @ [\<lparr> row_store_id = sid, row_metrics = m \<rparr>]) failed_stores
      | Inl e \<Rightarrow> collect_results result rest results (failed_stores @ [sid]))"

definition generate_report_optimized ::
  "(string \<Rightarrow> error + metrics) \<Rightarrow> string list \<Rightarrow> report_row list \<times> string list" where
  "generate_report_optimized result completed =
     (case collect_results result completed [] [] of
        (results, failed_stores) \<Rightarrow> (sort_key row_store_id results, failed_stores))"

definition process_store :: "pytz \<Rightarrow> session \<Rightarrow> datetime \<Rightarrow> string \<Rightarrow> error + metrics" where
  "process_store P db now sid = metrics_for_store P db sid now"

section \<open>Specification predicates\<close>

text \<open>A normalized interval list: every interval is non-empty and starts strictly after
  the end of the one before it.\<close>

fun normalized :: "interval list \<Rightarrow> bool" where
  "normalized [] = True"
| "normalized [(s, e)] = (s < e)"
| "normalized ((s, e) # (s', e') # rest) = (s < e \<and> e < s' \<and> normalized ((s', e') # rest))"

text \<open>Segments: start, end, and what it means for a segment list to partition a window:
  the first segment starts at the window start, the last ends at the window end, every
  segment ends where the next one starts, and (for a partition proper) no segment is empty.\<close>

definition seg_start :: "segment \<Rightarrow> datetime" where
  "seg_start seg = fst seg"

definition seg_end :: "segment \<Rightarrow> datetime" where
  "seg_end seg = fst (snd seg)"

fun contiguous :: "segment list \<Rightarrow> bool" where
  "contiguous [] = True"
| "contiguous [x] = True"
| "contiguous (x # y # rest) = (seg_end x = seg_start y \<and> contiguous (y # rest))"

definition covers :: "datetime \<Rightarrow> datetime \<Rightarrow> segment list \<Rightarrow> bool" where
  "covers ws we segs =
     (segs \<noteq> [] \<and> seg_start (hd segs) = ws \<and> seg_end (last segs) = we \<and> contiguous segs)"

definition partitions :: "datetime \<Rightarrow> datetime \<Rightarrow> segment list \<Rightarrow> bool" where
  "partitions ws we segs =
     (covers ws we segs \<and> list_all (\<lambda>seg. seg_start seg < seg_end seg) segs)"

definition weakly_partitions :: "datetime \<Rightarrow> datetime \<Rightarrow> segment list \<Rightarrow> bool" where
  "weakly_partitions ws we segs =
     (covers ws we segs \<and> list_all (\<lambda>seg. seg_start seg \<le> seg_end seg) segs)"

fun chain :: "datetime \<Rightarrow> segment list \<Rightarrow> datetime \<Rightarrow> bool" where
  "chain a [] b = (a = b)"
| "chain a (x # rest) b = (seg_start x = a \<and> chain (seg_end x) rest b)"

definition in_window :: "datetime \<Rightarrow> datetime \<Rightarrow> StoreStatus \<Rightarrow> bool" where
  "in_window ws we obs = (ws < timestamp_utc obs \<and> timestamp_utc obs \<le> we)"

text \<open>The branch of \<^verbatim>\<open>_status_segments\<close> that fixes the initial status, for a non-empty
  list of fetched observations.\<close>

definition initial_branch_of :: "StoreStatus list \<Rightarrow> datetime \<Rightarrow> datetime \<Rightarrow> initial_branch" where
  "initial_branch_of all_obs ws we =
     (case partition_obs ws we all_obs None [] of
        (prev_obs, window_obs) \<Rightarrow> fst (initial_status all_obs prev_obs window_obs))"

text \<open>Example tables.\<close>

definition dup_db :: session where
  "dup_db = \<lparr> store_status =
      [\<lparr> store_id = ''s'', timestamp_utc = 0, status = ''active'' \<rparr>,
       \<lparr> store_id = ''s'', timestamp_utc = 5, status = ''inactive'' \<rparr>,
       \<lparr> store_id = ''s'', timestamp_utc = 5, status = ''active'' \<rparr>],
     business_hours = [], store_timezone = [] \<rparr>"

definition two_obs_db :: session where
  "two_obs_db = \<lparr> store_status =
      [\<lparr> store_id = ''s'', timestamp_utc = 0, status = ''active'' \<rparr>,
       \<lparr> store_id = ''s'', timestamp_utc = 5, status = ''inactive'' \<rparr>],
     business_hours = [], store_timezone = [] \<rparr>"



definition covered_by :: "interval \<Rightarrow> interval list \<Rightarrow> bool" where
  "covered_by i xs = list_ex (\<lambda>j. fst j \<le> fst i \<and> snd i \<le> snd j) xs"





text \<open>The outer loop of \<^verbatim>\<open>_accumulate_overlaps\<close> from any accumulator.\<close>

definition accumulate_from ::
  "pyfloat \<times> pyfloat \<Rightarrow> segment list \<Rightarrow> interval list \<Rightarrow> pyfloat \<times> pyfloat" where
  "accumulate_from acc segs bhs = foldl (\<lambda>acc seg. foldl (overlap_step seg) acc bhs) acc segs"

text \<open>The dates visited by the \<^verbatim>\<open>while\<close> loop of the expander.\<close>

definition scan_dates :: "tzinfo \<Rightarrow> datetime \<Rightarrow> datetime \<Rightarrow> date list" where
  "scan_dates tz ws we =
     [date_of (ws + utcoffset_at_utc tz ws) - 1 .. date_of (we + utcoffset_at_utc tz we) + 1]"

text \<open>The seconds \<^verbatim>\<open>(up_s, down_s)\<close> that \<^verbatim>\<open>metrics_for_store\<close> computes for the window
  of length \<open>len\<close> ending at \<open>now\<close>.\<close>

definition last_window ::
  "pytz \<Rightarrow> session \<Rightarrow> string \<Rightarrow> datetime \<Rightarrow> timedelta \<Rightarrow> error + pyfloat \<times> pyfloat" where
  "last_window P db sid now len =
     window_seconds P db sid (get_store_timezone_str P db sid) (get_business_hours_map db sid)
       (to_aware_utc now - len) (to_aware_utc now)"

text \<open>A number with at most two decimal places.\<close>

definition two_decimals :: "rat \<Rightarrow> bool" where
  "two_decimals r = (r * 100 = of_int \<lfloor>r * 100\<rfloor>)"

text \<open>A zone database without zones, and the tables of the mixed example: active from
  instant 0, inactive from half an hour later.\<close>

definition no_zones :: pytz where
  "no_zones = \<lparr> all_timezones = [], timezone = (\<lambda>name. None) \<rparr>"


text \<open>A store whose computation succeeded, the row written for it, and an example in
  which store \<open>b\<close> fails.\<close>

definition succeeded :: "(string \<Rightarrow> error + metrics) \<Rightarrow> string \<Rightarrow> bool" where
  "succeeded result sid = (\<not> isl (result sid))"

definition row_of :: "(string \<Rightarrow> error + metrics) \<Rightarrow> string \<Rightarrow> report_row" where
  "row_of result sid = \<lparr> row_store_id = sid, row_metrics = projr (result sid) \<rparr>"

definition zero_metrics :: metrics where
  "zero_metrics = \<lparr> uptime_last_hour = 0, downtime_last_hour = 60, uptime_last_day = 0,
     downtime_last_day = 24, uptime_last_week = 0, downtime_last_week = 168 \<rparr>"

definition b_fails :: "string \<Rightarrow> error + metrics" where
  "b_fails sid = (if sid = ''b'' then Inl (StoreFailure ''b'') else Inr zero_metrics)"

text \<open>Example zone database: America/Chicago during daylight saving time, a fixed offset
  of five hours behind UTC. Times of day and UTC instants from day numbers (2025-05-02 is
  day 20210, a Friday; 2025-05-06 is day 20214, a Tuesday).\<close>

definition fixed_offset :: "timedelta \<Rightarrow> tzinfo" where
  "fixed_offset off = \<lparr> utcoffset_at_utc = (\<lambda>t. off), utcoffset_at_local = (\<lambda>t. off) \<rparr>"

definition chicago_cdt :: pytz where
  "chicago_cdt = \<lparr> all_timezones = [''America/Chicago''],
     timezone = (\<lambda>name. if name = ''America/Chicago''
                          then Some (fixed_offset (timedelta_hours (- 5))) else None) \<rparr>"

definition time_hm :: "int \<Rightarrow> int \<Rightarrow> time_of_day" where
  "time_hm h m = (h * 60 + m) * 60000000"

definition utc_ymd_hm :: "date \<Rightarrow> int \<Rightarrow> int \<Rightarrow> datetime" where
  "utc_ymd_hm d h m = combine d (time_hm h m)"

text \<open>Example rule sets and tables: open Friday 22:00 to 06:00; open all Tuesday; no rows
  at all; no observations and business hours on Monday from 09:00 to 17:00.\<close>

definition friday_night_rules :: bh_dict where
  "friday_night_rules = [(4, [(time_hm 22 0, time_hm 6 0)])]"

definition tuesday_all_day :: bh_dict where
  "tuesday_all_day = [(1, [(0, 0)])]"

definition empty_db :: session where
  "empty_db = \<lparr> store_status = [], business_hours = [], store_timezone = [] \<rparr>"

definition monday_db :: session where
  "monday_db = \<lparr> store_status = [],
     business_hours = [\<lparr> bh_store_id = ''s'', day_of_week = 0,
                         start_time_local = time_hm 9 0, end_time_local = time_hm 17 0 \<rparr>],
     store_timezone = [] \<rparr>"

text \<open>Instants, segments and intervals on whole seconds; the exact number of seconds of a
  duration; the bound \<open>2 ^ 53\<close> seconds, in microseconds, below which whole seconds are
  doubles.\<close>

definition whole_second :: "int \<Rightarrow> bool" where
  "whole_second t = (1000000 dvd t)"



definition exact_seconds :: "timedelta \<Rightarrow> rat" where
  "exact_seconds d = of_int d / 1000000"


text \<open>Example tables: inactive from instant 0 and active for the 90 seconds before
  \<open>691200000000\<close> (eight days later); active from instant 0, inactive from 2478.638288 s,
  active again from 2514.881270 s.\<close>

definition ninety_db :: session where
  "ninety_db = \<lparr> store_status =
      [\<lparr> store_id = ''s'', timestamp_utc = 0, status = ''inactive'' \<rparr>,
       \<lparr> store_id = ''s'', timestamp_utc = 691110000000, status = ''active'' \<rparr>],
     business_hours = [], store_timezone = [] \<rparr>"


section \<open>Properties of the interval merge\<close>

lemma normalized_Cons: "normalized (x # xs) \<Longrightarrow> normalized xs"
  by (cases x; cases xs) auto

lemma normalized_fst_le: "normalized ((s, e) # xs) \<Longrightarrow> \<forall>y\<in>set xs. e < fst y"
proof (induction xs arbitrary: s e)
  case Nil then show ?case by simp
next
  case (Cons y ys)
  obtain s' e' where y: "y = (s', e')" by (cases y)
  from Cons.prems y have a: "s < e" "e < s'" "normalized ((s', e') # ys)" by auto
  from Cons.IH[OF a(3)] have "\<forall>z\<in>set ys. e' < fst z" .
  moreover from a(3) have "s' < e'" by (cases ys) auto
  ultimately show ?case using a y by fastforce
qed

lemma normalized_sorted: "normalized xs \<Longrightarrow> sorted (map fst xs)"
proof (induction xs)
  case Nil then show ?case by simp
next
  case (Cons x xs)
  obtain s e where x: "x = (s, e)" by (cases x)
  from Cons.prems x have "s < e" by (cases xs) auto
  with normalized_fst_le[of s e xs] Cons.prems x have "\<forall>y\<in>set xs. s \<le> fst y" by fastforce
  with Cons.IH normalized_Cons[OF Cons.prems] x show ?case by simp
qed

lemma merge_sweep_normalized:
  "normalized (x # rest) \<Longrightarrow> merge_sweep (pre @ [x]) rest = pre @ x # rest"
proof (induction rest arbitrary: pre x)
  case Nil then show ?case by simp
next
  case (Cons y ys)
  obtain s e where x: "x = (s, e)" by (cases x)
  obtain s' e' where y: "y = (s', e')" by (cases y)
  from Cons.prems x y have a: "e < s'" "normalized (y # ys)" by auto
  from Cons.IH[OF a(2), of "pre @ [x]"] a(1) x y show ?case by simp
qed

text \<open>
  C8. Merging an interval list that is already normalized (every interval non-empty, every
  start strictly after the previous end, hence sorted by start) returns the list unchanged.
\<close>

theorem merge_idempotent_on_normalized:
  "normalized xs \<Longrightarrow> merge_utc_intervals xs = xs"
proof (cases xs)
  case Nil then show ?thesis by (simp add: merge_utc_intervals_def)
next
  case (Cons x rest)
  assume n: "normalized xs"
  then have "sort_key fst xs = xs" by (simp add: normalized_sorted sort_key_id_if_sorted)
  moreover from n Cons have "merge_sweep ([] @ [x]) rest = [] @ x # rest"
    by (intro merge_sweep_normalized) simp
  ultimately show ?thesis using Cons by (simp add: merge_utc_intervals_def)
qed

theorem merge_idempotent_witness:
  "normalized [(1, 3), (5, 8), (9, 12)] \<and>
   merge_utc_intervals [(1, 3), (5, 8), (9, 12)] = [(1, 3), (5, 8), (9, 12)]"
  using merge_idempotent_on_normalized [of "[(1, 3), (5, 8), (9, 12)]"] by simp

section \<open>Business-hours expansion\<close>

text \<open>
  C2. With an empty rule mapping the expander returns the single interval from the window
  start to the window end, whatever the zone name and the zone database are (also when the
  zone is unknown to the database): the zone is not looked up and no date is enumerated.
\<close>

theorem expand_no_rules:
  "expand_business_hours_to_utc P tz_str [] ws we = Inr [(ws, we)]"
  by (simp add: expand_business_hours_to_utc_def to_aware_utc_def)

section \<open>Status segments\<close>

lemma partition_obs_snd:
  "snd (partition_obs ws we obs prev win) = win @ filter (in_window ws we) obs"
  by (induction obs arbitrary: prev win) (auto simp: in_window_def to_aware_utc_def Let_def)

lemma partition_obs_fst:
  "fst (partition_obs ws we obs prev win) =
     (case filter (\<lambda>ob. timestamp_utc ob \<le> ws) obs of [] \<Rightarrow> prev | x # xs \<Rightarrow> Some (last (x # xs)))"
  by (induction obs arbitrary: prev win)
     (auto simp: to_aware_utc_def Let_def split: list.splits)

lemma chain_snoc: "chain a xs b \<Longrightarrow> chain a (xs @ [(b, c, st)]) c"
  by (induction xs arbitrary: a) (auto simp: seg_start_def seg_end_def)

lemma chain_covers: "chain a xs b \<Longrightarrow> xs \<noteq> [] \<Longrightarrow> covers a b xs"
proof (induction xs arbitrary: a)
  case Nil then show ?case by simp
next
  case (Cons x xs)
  show ?case
  proof (cases xs)
    case Nil with Cons.prems show ?thesis by (simp add: covers_def)
  next
    case (Cons y ys)
    with Cons.prems Cons.IH[of "seg_end x"] show ?thesis by (auto simp: covers_def)
  qed
qed

lemma sweep_obs_chain:
  "sweep_obs win segs ct cs = (segs', ct', cs') \<Longrightarrow> chain a segs ct
   \<Longrightarrow> chain a segs' ct' \<and> (ct' = ct \<or> ct' \<in> timestamp_utc ` set win)"
proof (induction win arbitrary: segs ct cs)
  case Nil then show ?case by simp
next
  case (Cons obs rest)
  show ?case
  proof (cases "status obs \<noteq> cs")
    case True
    with Cons.prems(1) have
      "sweep_obs rest (segs @ [(ct, timestamp_utc obs, cs)]) (timestamp_utc obs) (status obs) = (segs', ct', cs')"
      by (simp add: to_aware_utc_def Let_def)
    from Cons.IH[OF this chain_snoc[OF Cons.prems(2)]] show ?thesis by auto
  next
    case False
    with Cons.prems(1) have "sweep_obs rest segs ct cs = (segs', ct', cs')" by simp
    from Cons.IH[OF this Cons.prems(2)] show ?thesis by auto
  qed
qed

lemma sweep_obs_le:
  "sweep_obs win segs ct cs = (segs', ct', cs') \<Longrightarrow> sorted (map timestamp_utc win)
   \<Longrightarrow> \<forall>ob\<in>set win. ct \<le> timestamp_utc ob \<Longrightarrow> \<forall>seg\<in>set segs. seg_start seg \<le> seg_end seg
   \<Longrightarrow> \<forall>seg\<in>set segs'. seg_start seg \<le> seg_end seg"
proof (induction win arbitrary: segs ct cs)
  case Nil then show ?case by simp
next
  case (Cons obs rest)
  show ?case
  proof (cases "status obs \<noteq> cs")
    case True
    with Cons.prems(1) have
      "sweep_obs rest (segs @ [(ct, timestamp_utc obs, cs)]) (timestamp_utc obs) (status obs) = (segs', ct', cs')"
      by (simp add: to_aware_utc_def Let_def)
    moreover from Cons.prems have "sorted (map timestamp_utc rest)"
      "\<forall>ob\<in>set rest. timestamp_utc obs \<le> timestamp_utc ob"
      "\<forall>seg\<in>set (segs @ [(ct, timestamp_utc obs, cs)]). seg_start seg \<le> seg_end seg"
      by (auto simp: seg_start_def seg_end_def)
    ultimately show ?thesis by (rule Cons.IH)
  next
    case False
    with Cons.prems(1) have "sweep_obs rest segs ct cs = (segs', ct', cs')" by simp
    moreover from Cons.prems have "sorted (map timestamp_utc rest)"
      "\<forall>ob\<in>set rest. ct \<le> timestamp_utc ob" by auto
    ultimately show ?thesis using Cons.prems(4) by (rule Cons.IH)
  qed
qed

lemma sweep_obs_less:
  "sweep_obs win segs ct cs = (segs', ct', cs') \<Longrightarrow> sorted_wrt (<) (map timestamp_utc win)
   \<Longrightarrow> \<forall>ob\<in>set win. ct < timestamp_utc ob \<Longrightarrow> \<forall>seg\<in>set segs. seg_start seg < seg_end seg
   \<Longrightarrow> \<forall>seg\<in>set segs'. seg_start seg < seg_end seg"
proof (induction win arbitrary: segs ct cs)
  case Nil then show ?case by simp
next
  case (Cons obs rest)
  show ?case
  proof (cases "status obs \<noteq> cs")
    case True
    with Cons.prems(1) have
      "sweep_obs rest (segs @ [(ct, timestamp_utc obs, cs)]) (timestamp_utc obs) (status obs) = (segs', ct', cs')"
      by (simp add: to_aware_utc_def Let_def)
    moreover from Cons.prems have "sorted_wrt (<) (map timestamp_utc rest)"
      "\<forall>ob\<in>set rest. timestamp_utc obs < timestamp_utc ob"
      "\<forall>seg\<in>set (segs @ [(ct, timestamp_utc obs, cs)]). seg_start seg < seg_end seg"
      by (auto simp: seg_start_def seg_end_def)
    ultimately show ?thesis by (rule Cons.IH)
  next
    case False
    with Cons.prems(1) have "sweep_obs rest segs ct cs = (segs', ct', cs')" by simp
    moreover from Cons.prems have "sorted_wrt (<) (map timestamp_utc rest)"
      "\<forall>ob\<in>set rest. ct < timestamp_utc ob" by auto
    ultimately show ?thesis using Cons.prems(4) by (rule Cons.IH)
  qed
qed

lemma segments_of_obs_cases:
  assumes "all_obs \<noteq> []"
  obtains segs ct cs where
    "sweep_obs (filter (in_window ws we) all_obs) [] ws
       (snd (initial_status all_obs (fst (partition_obs ws we all_obs None []))
              (filter (in_window ws we) all_obs))) = (segs, ct, cs)"
    "segments_of_obs all_obs ws we = (if ct < we then segs @ [(ct, we, cs)] else segs)"
proof -
  obtain prev win where p: "partition_obs ws we all_obs None [] = (prev, win)"
    by (cases "partition_obs ws we all_obs None []")
  have win: "win = filter (in_window ws we) all_obs"
    using partition_obs_snd[of ws we all_obs None "[]"] p by simp
  obtain segs ct cs where
    s: "sweep_obs win [] ws (snd (initial_status all_obs prev win)) = (segs, ct, cs)"
    by (cases "sweep_obs win [] ws (snd (initial_status all_obs prev win))")
  have "segments_of_obs all_obs ws we = (if ct < we then segs @ [(ct, we, cs)] else segs)"
    using assms p s by (simp add: segments_of_obs_def)
  with s p win that show thesis by simp
qed

lemma segments_of_obs_covers:
  assumes "ws < we"
  shows "covers ws we (segments_of_obs all_obs ws we)"
proof (cases "all_obs = []")
  case True
  then show ?thesis by (simp add: segments_of_obs_def covers_def seg_start_def seg_end_def)
next
  case False
  then obtain segs ct cs where
    s: "sweep_obs (filter (in_window ws we) all_obs) [] ws
       (snd (initial_status all_obs (fst (partition_obs ws we all_obs None []))
              (filter (in_window ws we) all_obs))) = (segs, ct, cs)"
    and r: "segments_of_obs all_obs ws we = (if ct < we then segs @ [(ct, we, cs)] else segs)"
    by (rule segments_of_obs_cases)
  have "chain ws [] ws" by simp
  from sweep_obs_chain[OF s this]
  have c: "chain ws segs ct" and t: "ct = ws \<or> ct \<in> timestamp_utc ` set (filter (in_window ws we) all_obs)"
    by auto
  from t assms have le: "ct \<le> we" by (auto simp: in_window_def)
  show ?thesis
  proof (cases "ct < we")
    case True
    with r chain_snoc[OF c, of we cs] show ?thesis by (simp add: chain_covers)
  next
    case False
    with le have eq: "ct = we" by simp
    with c assms have "segs \<noteq> []" by auto
    with c eq r False show ?thesis by (simp add: chain_covers)
  qed
qed

lemma segments_of_obs_le:
  assumes "ws < we" "sorted (map timestamp_utc all_obs)"
  shows "\<forall>seg\<in>set (segments_of_obs all_obs ws we). seg_start seg \<le> seg_end seg"
proof (cases "all_obs = []")
  case True
  with assms show ?thesis by (simp add: segments_of_obs_def seg_start_def seg_end_def)
next
  case False
  then obtain segs ct cs where
    s: "sweep_obs (filter (in_window ws we) all_obs) [] ws
       (snd (initial_status all_obs (fst (partition_obs ws we all_obs None []))
              (filter (in_window ws we) all_obs))) = (segs, ct, cs)"
    and r: "segments_of_obs all_obs ws we = (if ct < we then segs @ [(ct, we, cs)] else segs)"
    by (rule segments_of_obs_cases)
  have "sorted (map timestamp_utc (filter (in_window ws we) all_obs))"
    using assms(2) by (rule sorted_filter)
  moreover have "\<forall>ob\<in>set (filter (in_window ws we) all_obs). ws \<le> timestamp_utc ob"
    by (auto simp: in_window_def)
  moreover have "\<forall>seg\<in>set ([]::segment list). seg_start seg \<le> seg_end seg" by simp
  ultimately have "\<forall>seg\<in>set segs. seg_start seg \<le> seg_end seg"
    by (rule sweep_obs_le[OF s])
  with r show ?thesis by (auto simp: seg_start_def seg_end_def)
qed

lemma segments_of_obs_less:
  assumes "ws < we" "sorted (map timestamp_utc all_obs)" "distinct (map timestamp_utc all_obs)"
  shows "\<forall>seg\<in>set (segments_of_obs all_obs ws we). seg_start seg < seg_end seg"
proof (cases "all_obs = []")
  case True
  with assms show ?thesis by (simp add: segments_of_obs_def seg_start_def seg_end_def)
next
  case False
  then obtain segs ct cs where
    s: "sweep_obs (filter (in_window ws we) all_obs) [] ws
       (snd (initial_status all_obs (fst (partition_obs ws we all_obs None []))
              (filter (in_window ws we) all_obs))) = (segs, ct, cs)"
    and r: "segments_of_obs all_obs ws we = (if ct < we then segs @ [(ct, we, cs)] else segs)"
    by (rule segments_of_obs_cases)
  from assms(2,3) have "sorted_wrt (<) (map timestamp_utc all_obs)"
    by (simp add: strict_sorted_iff)
  then have "sorted_wrt (\<lambda>a b. timestamp_utc a < timestamp_utc b) all_obs"
    by (simp add: sorted_wrt_map)
  then have "sorted_wrt (\<lambda>a b. timestamp_utc a < timestamp_utc b) (filter (in_window ws we) all_obs)"
    by (rule sorted_wrt_filter)
  then have "sorted_wrt (<) (map timestamp_utc (filter (in_window ws we) all_obs))"
    by (simp add: sorted_wrt_map)
  moreover have "\<forall>ob\<in>set (filter (in_window ws we) all_obs). ws < timestamp_utc ob"
    by (auto simp: in_window_def)
  moreover have "\<forall>seg\<in>set ([]::segment list). seg_start seg < seg_end seg" by simp
  ultimately have "\<forall>seg\<in>set segs. seg_start seg < seg_end seg"
    by (rule sweep_obs_less[OF s])
  with r show ?thesis by (auto simp: seg_start_def seg_end_def)
qed

lemma query_observations_sorted: "sorted (map timestamp_utc (query_observations db sid we))"
  by (simp add: query_observations_def)

lemma query_observations_le: "\<forall>ob\<in>set (query_observations db sid we). timestamp_utc ob \<le> we"
  by (simp add: query_observations_def)

text \<open>
  C1 (as amended). For every store and every window with \<open>ws < we\<close> the segments returned
  by \<^verbatim>\<open>_status_segments\<close> cover the window: the first segment starts at \<open>ws\<close>, the last
  ends at \<open>we\<close>, each segment ends where the next starts, and every segment has
  start \<open>\<le>\<close> end. Every segment has start \<open><\<close> end when no two fetched observations
  carry the same timestamp.
\<close>

theorem status_segments_partition:
  assumes "ws < we"
  shows "weakly_partitions ws we (status_segments db sid ws we) \<and>
         (distinct (map timestamp_utc (query_observations db sid we))
            \<longrightarrow> partitions ws we (status_segments db sid ws we))"
  using assms segments_of_obs_covers[OF assms, of "query_observations db sid we"]
    segments_of_obs_le[OF assms query_observations_sorted, of db sid we]
    segments_of_obs_less[OF assms query_observations_sorted, of db sid we]
  by (simp add: status_segments_def to_aware_utc_def weakly_partitions_def partitions_def
        list_all_iff)

lemma dup_segments:
  "status_segments dup_db ''s'' 0 10 = [(0, 5, ''active''), (5, 5, ''inactive''), (5, 10, ''active'')]"
  by (simp add: status_segments_def dup_db_def query_observations_def segments_of_obs_def
      to_aware_utc_def initial_status_def Let_def)

text \<open>
  C1 as stated fails: with two observations at the same instant inside the window, the
  second reverting the first, the segment between them is empty (start = end).
\<close>

theorem status_segments_empty_segment:
  "(0::int) < 10 \<and>
   status_segments dup_db ''s'' 0 10 = [(0, 5, ''active''), (5, 5, ''inactive''), (5, 10, ''active'')] \<and>
   \<not> partitions 0 10 (status_segments dup_db ''s'' 0 10)"
  by (simp add: status_segments_def dup_db_def query_observations_def segments_of_obs_def
      to_aware_utc_def initial_status_def Let_def partitions_def seg_start_def seg_end_def)

theorem status_segments_partition_witness:
  "(0::int) < 10 \<and> weakly_partitions 0 10 (status_segments two_obs_db ''s'' 0 10) \<and>
   distinct (map timestamp_utc (query_observations two_obs_db ''s'' 10)) \<and>
   partitions 0 10 (status_segments two_obs_db ''s'' 0 10) \<and>
   status_segments two_obs_db ''s'' 0 10 = [(0, 5, ''active''), (5, 10, ''inactive'')]"
  using status_segments_partition [of 0 10 two_obs_db "''s''"]
  by (simp add: status_segments_def two_obs_db_def query_observations_def segments_of_obs_def
      to_aware_utc_def initial_status_def Let_def)

text \<open>
  C9. When every fetched observation has a timestamp at or before the window end and the
  list is not empty, the initial status never comes from the fallback branch (the last
  observation overall): a prior observation or an observation in the window exists.
\<close>

theorem fallback_branch_unreachable:
  assumes "\<forall>ob\<in>set all_obs. timestamp_utc ob \<le> we" "all_obs \<noteq> []"
  shows "initial_branch_of all_obs ws we \<noteq> FromLastObs"
proof -
  obtain prev win where p: "partition_obs ws we all_obs None [] = (prev, win)"
    by (cases "partition_obs ws we all_obs None []")
  have win: "win = filter (in_window ws we) all_obs"
    using partition_obs_snd[of ws we all_obs None "[]"] p by simp
  have prev: "prev = (case filter (\<lambda>ob. timestamp_utc ob \<le> ws) all_obs of [] \<Rightarrow> None
                       | x # xs \<Rightarrow> Some (last (x # xs)))"
    using partition_obs_fst[of ws we all_obs None "[]"] p by simp
  from assms(2) obtain ob where ob: "ob \<in> set all_obs" by (cases all_obs) auto
  show ?thesis
  proof (cases "timestamp_utc ob \<le> ws")
    case True
    with ob have "filter (\<lambda>ob. timestamp_utc ob \<le> ws) all_obs \<noteq> []"
      by (auto simp: filter_empty_conv)
    with prev obtain q where "prev = Some q" by (auto split: list.splits)
    with p show ?thesis by (simp add: initial_branch_of_def initial_status_def)
  next
    case False
    with ob assms(1) have "in_window ws we ob" by (auto simp: in_window_def)
    with ob win have "win \<noteq> []" by (auto simp: filter_empty_conv)
    with p show ?thesis by (simp add: initial_branch_of_def initial_status_def split: option.splits)
  qed
qed

theorem fallback_branch_unreachable_witness:
  "list_all (\<lambda>ob. timestamp_utc ob \<le> 3) (query_observations two_obs_db ''s'' 3) \<and>
   query_observations two_obs_db ''s'' 3 \<noteq> [] \<and>
   initial_branch_of (query_observations two_obs_db ''s'' 3) 0 3 \<noteq> FromLastObs"
  using fallback_branch_unreachable [of "query_observations two_obs_db ''s'' 3" 3 0]
  by (simp add: two_obs_db_def query_observations_def)

section \<open>More on the interval merge\<close>


lemma merge_sweep_nonempty: "merged \<noteq> [] \<Longrightarrow> merge_sweep merged rest \<noteq> []"
proof (induction rest arbitrary: merged)
  case Nil then show ?case by simp
next
  case (Cons x rest)
  obtain s e where x: "x = (s, e)" by (cases x)
  obtain ls le where l: "last merged = (ls, le)" by (cases "last merged")
  have "merge_sweep (butlast merged @ [(ls, max le e)]) rest \<noteq> []"
       "merge_sweep (merged @ [(s, e)]) rest \<noteq> []"
    by (rule Cons.IH, simp)+
  with x l show ?case by simp
qed





lemma covered_by_trans:
  assumes "fst j \<le> fst i" "snd i \<le> snd j" "covered_by j xs"
  shows "covered_by i xs"
proof -
  from assms(3) obtain k where k: "k \<in> set xs" "fst k \<le> fst j" "snd j \<le> snd k"
    by (auto simp: covered_by_def list_ex_iff)
  with assms(1,2) have "fst k \<le> fst i \<and> snd i \<le> snd k" by simp
  with k(1) show ?thesis unfolding covered_by_def list_ex_iff by blast
qed

lemma covered_by_self: "i \<in> set xs \<Longrightarrow> covered_by i xs"
  by (auto simp: covered_by_def list_ex_iff)

lemma merge_sweep_covered_by:
  "merged \<noteq> [] \<Longrightarrow> sorted (map fst rest) \<Longrightarrow> \<forall>i\<in>set rest. fst (last merged) \<le> fst i
   \<Longrightarrow> \<forall>i\<in>set merged \<union> set rest. covered_by i (merge_sweep merged rest)"
proof (induction rest arbitrary: merged)
  case Nil then show ?case by (simp add: covered_by_self)
next
  case (Cons x rest)
  obtain s e where x: "x = (s, e)" by (cases x)
  obtain ls le where l: "last merged = (ls, le)" by (cases "last merged")
  from Cons.prems x l have so: "sorted (map fst rest)" and ge: "\<forall>i\<in>set rest. s \<le> fst i"
    and ls: "ls \<le> s" by auto
  from Cons.prems(1) l have m: "merged = butlast merged @ [(ls, le)]"
    by (metis append_butlast_last_id)
  show ?case
  proof (cases "s \<le> le")
    case True
    let ?m = "butlast merged @ [(ls, max le e)]"
    have "\<forall>i\<in>set rest. fst (last ?m) \<le> fst i" using ge ls by auto
    then have ih: "\<forall>i\<in>set ?m \<union> set rest. covered_by i (merge_sweep ?m rest)"
      using so by (intro Cons.IH) auto
    then have new: "covered_by (ls, max le e) (merge_sweep ?m rest)" by simp
    have eq: "merge_sweep merged (x # rest) = merge_sweep ?m rest" using True x l by simp
    have "covered_by i (merge_sweep ?m rest)" if "i \<in> set merged \<union> set (x # rest)" for i
    proof -
      from that m have "i \<in> set (butlast merged) \<or> i = (ls, le) \<or> i = (s, e) \<or> i \<in> set rest"
        using x by (metis Un_iff insert_iff list.simps(15) set_append empty_set empty_iff)
      then show ?thesis
      proof (elim disjE)
        assume "i \<in> set (butlast merged)" with ih show ?thesis by simp
      next
        assume "i = (ls, le)" with new show ?thesis by (auto intro: covered_by_trans[where j = "(ls, max le e)"])
      next
        assume "i = (s, e)" with new ls show ?thesis by (auto intro: covered_by_trans[where j = "(ls, max le e)"])
      next
        assume "i \<in> set rest" with ih show ?thesis by simp
      qed
    qed
    with eq show ?thesis by simp
  next
    case False
    let ?m = "merged @ [(s, e)]"
    have "\<forall>i\<in>set rest. fst (last ?m) \<le> fst i" using ge by simp
    then have ih: "\<forall>i\<in>set ?m \<union> set rest. covered_by i (merge_sweep ?m rest)"
      using so by (intro Cons.IH) auto
    have eq: "merge_sweep merged (x # rest) = merge_sweep ?m rest" using False x l by simp
    from ih x show ?thesis unfolding eq by auto
  qed
qed

lemma sorted_hd_tl:
  assumes "xs \<noteq> []" "sorted (map f xs)"
  shows "sorted (map f (tl xs))" "\<forall>i\<in>set (tl xs). f (hd xs) \<le> f i"
  using assms by (cases xs; simp)+



lemma merge_utc_intervals_covered_by:
  assumes "i \<in> set xs"
  shows "covered_by i (merge_utc_intervals xs)"
proof -
  let ?s = "sort_key fst xs"
  from assms have False: "xs \<noteq> []" by auto
  then have ne: "?s \<noteq> []" by (metis length_0_conv length_sort)
  have so: "sorted (map fst ?s)" by simp
  have "\<forall>i\<in>set [hd ?s] \<union> set (tl ?s). covered_by i (merge_sweep [hd ?s] (tl ?s))"
  proof (rule merge_sweep_covered_by)
    show "[hd ?s] \<noteq> []" by simp
    show "sorted (map fst (tl ?s))" using sorted_hd_tl(1)[OF ne so] .
    show "\<forall>i\<in>set (tl ?s). fst (last [hd ?s]) \<le> fst i" using sorted_hd_tl(2)[OF ne so] by simp
  qed
  moreover have "set (hd ?s # tl ?s) = set xs" using ne by simp
  then have "i \<in> set [hd ?s] \<union> set (tl ?s)" using assms by auto
  ultimately have "covered_by i (merge_sweep [hd ?s] (tl ?s))" by (rule bspec)
  then show ?thesis using False by (simp add: merge_utc_intervals_def Let_def)
qed

section \<open>Rounding to doubles\<close>

lemma round_half_even_of_int: "round_half_even (of_int m) = m"
  by (simp add: round_half_even_def)

lemma round_half_even_nonneg: "0 \<le> x \<Longrightarrow> 0 \<le> round_half_even x"
  by (auto simp: round_half_even_def Let_def)

lemma round_half_even_error: "\<bar>of_int (round_half_even x) - x\<bar> \<le> 1 / 2"
proof -
  have "of_int \<lfloor>x\<rfloor> \<le> x" "x < of_int \<lfloor>x\<rfloor> + 1" by linarith+
  then show ?thesis by (auto simp: round_half_even_def Let_def)
qed

lemma pow2_pos: "0 < pow2 e"
  by (simp add: pow2_def)

lemma round_to_double_nonneg: "0 \<le> x \<Longrightarrow> 0 \<le> round_to_double x"
proof (cases "x = 0")
  case True then show ?thesis by (simp add: round_to_double_def)
next
  case False
  assume x: "0 \<le> x"
  let ?e = "float_exponent \<bar>x\<bar>"
  have "0 \<le> x / pow2 ?e" using x pow2_pos[of ?e] by simp
  then have "0 \<le> round_half_even (x / pow2 ?e)" by (rule round_half_even_nonneg)
  then have "0 \<le> (of_int (round_half_even (x / pow2 ?e)) :: rat) * pow2 ?e"
    using pow2_pos[of ?e] by simp
  with False show ?thesis by (simp add: round_to_double_def Let_def)
qed

lemma scale_down_small:
  "\<forall>k\<in>set ks. 1 \<le> k \<Longrightarrow> 0 \<le> x \<Longrightarrow> x < 9007199254740992 \<Longrightarrow> scale_down ks (x, e) = (x, e)"
proof (induction ks)
  case Nil show ?case by simp
next
  case (Cons k ks)
  from Cons.prems(1) have k: "1 \<le> k" by simp
  then have "(2::rat) ^ 1 \<le> 2 ^ k" by (intro power_increasing) simp_all
  then have "(2::rat) \<le> 2 ^ k" by simp
  then have le: "x / 2 ^ k \<le> x / 2" using Cons.prems(2) by (intro divide_left_mono) simp_all
  have "x / 2 < 4503599627370496" using Cons.prems(3) by simp
  with le have "\<not> 4503599627370496 \<le> x / 2 ^ k" by linarith
  with Cons show ?case by simp
qed

lemma scale_up_le: "snd (scale_up ks (x, e)) \<le> e"
proof (induction ks arbitrary: x e)
  case Nil show ?case by simp
next
  case (Cons k ks)
  from Cons.IH[of "x * 2 ^ k" "e - int k"] Cons.IH[of x e] show ?case by simp
qed

lemma float_exponent_small:
  assumes "0 \<le> x" "x < 9007199254740992"
  shows "float_exponent x \<le> 0"
proof -
  have "scale_down shifts (x, 0) = (x, 0)"
    using assms by (intro scale_down_small) (simp_all add: shifts_def)
  with scale_up_le[of shifts x 0] show ?thesis by (simp add: float_exponent_def)
qed

lemma round_to_double_of_int:
  assumes "\<bar>n\<bar> < 9007199254740992"
  shows "round_to_double (of_int n) = of_int n"
proof (cases "n = 0")
  case True then show ?thesis by (simp add: round_to_double_def)
next
  case False
  let ?x = "of_int n :: rat"
  let ?e = "float_exponent \<bar>?x\<bar>"
  have "\<bar>?x\<bar> = of_int \<bar>n\<bar>" by simp
  also have "\<dots> < 9007199254740992" using assms by (simp only: of_int_less_numeral_iff)
  finally have "?e \<le> 0" by (intro float_exponent_small) simp_all
  then have p: "pow2 ?e = 1 / 2 ^ nat (- ?e)" by (cases "?e = 0") (simp_all add: pow2_def)
  have "?x / pow2 ?e = of_int (n * 2 ^ nat (- ?e))" by (simp add: p)
  then have "round_half_even (?x / pow2 ?e) = n * 2 ^ nat (- ?e)"
    by (simp only: round_half_even_of_int)
  then have "of_int (round_half_even (?x / pow2 ?e)) * pow2 ?e = ?x" by (simp add: p)
  with False show ?thesis by (simp add: round_to_double_def Let_def)
qed

lemma round_to_double_numeral:
  "numeral k < (9007199254740992::int) \<Longrightarrow> round_to_double (numeral k) = numeral k"
  using round_to_double_of_int[of "numeral k"] by simp

lemma round_to_double_0: "round_to_double 0 = 0"
  by (simp add: round_to_double_def)

lemma floor_numeral_div: "\<lfloor>(numeral a :: rat) / numeral b\<rfloor> = numeral a div numeral b"
  using floor_divide_of_int_eq[of "numeral a" "numeral b", where ?'a = rat] by simp

lemmas float_eval = round_to_double_def float_exponent_def shifts_def pow2_def
  round_half_even_def float_add_def float_div_def py_round2_def nearest_hundredth_def
  total_seconds_def Let_def floor_numeral_div

lemma exact_seconds_whole: "whole_second d \<Longrightarrow> exact_seconds d = of_int (d div 1000000)"
  by (auto simp: whole_second_def exact_seconds_def elim!: dvdE)







lemma total_seconds_nonneg: "0 \<le> d \<Longrightarrow> 0 \<le> total_seconds d"
  by (simp add: total_seconds_def float_div_def round_to_double_nonneg)

lemma float_add_nonneg: "0 \<le> a \<Longrightarrow> 0 \<le> b \<Longrightarrow> 0 \<le> float_add a b"
  by (simp add: float_add_def round_to_double_nonneg)

lemma float_div_nonneg: "0 \<le> a \<Longrightarrow> 0 < b \<Longrightarrow> 0 \<le> float_div a b"
  by (simp add: float_div_def round_to_double_nonneg)

text \<open>
  The model on values computed by CPython: the floats 0.1 and 0.6; 0.1 + 0.2 + 0.3 (which is
  0.6000000000000001); 18 and 54 seconds as hours rounded to two places (both 0.01, where
  exact arithmetic gives 0 and 0.02); 0.3 + 32.3 + 27.4 seconds (59.99999999999999) as
  whole minutes (0).
\<close>

lemma float_examples:
  "round_to_double (1 / 10) = 3602879701896397 / 36028797018963968"
  "total_seconds 600000 = 5404319552844595 / 9007199254740992"
  "float_add (float_add (total_seconds 100000) (total_seconds 200000)) (total_seconds 300000)
     = 1351079888211149 / 2251799813685248"
  "py_round2 (float_div 18 3600) = round_to_double (1 / 100)"
  "py_round2 (float_div 54 3600) = round_to_double (1 / 100)"
  "float_add (float_add (total_seconds 300000) (total_seconds 32300000)) (total_seconds 27400000)
     = 8444249301319679 / 140737488355328"
  "py_int (float_div (8444249301319679 / 140737488355328) 60) = 0"
  by (simp_all add: float_eval py_int_def)

section \<open>Overlap accumulation\<close>

lemma overlap_step_nonneg:
  assumes "0 \<le> fst acc" "0 \<le> snd acc"
  shows "0 \<le> fst (overlap_step seg acc bh) \<and> 0 \<le> snd (overlap_step seg acc bh)"
proof -
  obtain s e st where seg: "seg = (s, e, st)" by (cases seg)
  obtain up down where acc: "acc = (up, down)" by (cases acc)
  obtain a b where bh: "bh = (a, b)" by (cases bh)
  show ?thesis
  proof (cases "max s a \<ge> min e b")
    case True
    with seg acc bh assms show ?thesis by (simp add: overlap_step_def Let_def)
  next
    case False
    then have "0 \<le> min e b - max s a" by linarith
    then have "0 \<le> total_seconds (min e b - max s a)" by (rule total_seconds_nonneg)
    with False seg acc bh assms show ?thesis
      by (simp add: overlap_step_def Let_def float_add_nonneg)
  qed
qed

lemma foldl_overlap_step_nonneg:
  "0 \<le> fst acc \<Longrightarrow> 0 \<le> snd acc
   \<Longrightarrow> 0 \<le> fst (foldl (overlap_step seg) acc bhs) \<and> 0 \<le> snd (foldl (overlap_step seg) acc bhs)"
proof (induction bhs arbitrary: acc)
  case Nil then show ?case by simp
next
  case (Cons bh bhs)
  from overlap_step_nonneg[OF Cons.prems, of seg bh] Cons.IH[of "overlap_step seg acc bh"]
  show ?case by simp
qed

lemma accumulate_from_nonneg:
  "0 \<le> fst acc \<Longrightarrow> 0 \<le> snd acc
   \<Longrightarrow> 0 \<le> fst (accumulate_from acc segs bhs) \<and> 0 \<le> snd (accumulate_from acc segs bhs)"
proof (induction segs arbitrary: acc)
  case Nil then show ?case by (simp add: accumulate_from_def)
next
  case (Cons seg segs)
  from foldl_overlap_step_nonneg[OF Cons.prems, of seg bhs]
    Cons.IH[of "foldl (overlap_step seg) acc bhs"]
  show ?case by (simp add: accumulate_from_def)
qed

lemma accumulate_overlaps_nonneg:
  "0 \<le> fst (accumulate_overlaps segs bhs) \<and> 0 \<le> snd (accumulate_overlaps segs bhs)"
  using accumulate_from_nonneg[of "(0, 0)" segs bhs]
  by (simp add: accumulate_overlaps_def accumulate_from_def)


















section \<open>Expansion inside the window\<close>

lemma expand_empty_map:
  "expand_business_hours_to_utc P tz_str [] ws we = Inr [(ws, we)]"
  by (simp add: expand_business_hours_to_utc_def to_aware_utc_def)

lemma expand_Some:
  assumes "timezone P tz_str = Some tz" "bh_map \<noteq> []"
  shows "expand_business_hours_to_utc P tz_str bh_map ws we =
           Inr (merge_utc_intervals
                  (concat (map (day_intervals tz bh_map ws we) (scan_dates tz ws we))))"
  using assms
  by (simp add: expand_business_hours_to_utc_def utc_to_local_def to_aware_utc_def scan_dates_def
        Let_def)








lemma window_seconds_nonneg:
  assumes "window_seconds P db sid tz_str bh_map ws we = Inr (up, down)"
  shows "0 \<le> up \<and> 0 \<le> down"
proof -
  from assms obtain bhs where e: "expand_business_hours_to_utc P tz_str bh_map ws we = Inr bhs"
    by (auto simp: window_seconds_def split: sum.splits)
  show ?thesis
  proof (cases "bhs = []")
    case True with assms e show ?thesis by (simp add: window_seconds_def)
  next
    case False
    with assms e have "accumulate_overlaps (status_segments db sid ws we) bhs = (up, down)"
      by (simp add: window_seconds_def)
    with accumulate_overlaps_nonneg[of "status_segments db sid ws we" bhs] show ?thesis by simp
  qed
qed


lemma metrics_for_store_Inr:
  assumes "metrics_for_store P db sid now = Inr m"
  obtains up_h down_h up_d down_d up_w down_w where
    "window_seconds P db sid (get_store_timezone_str P db sid) (get_business_hours_map db sid)
       (now - timedelta_hours 1) now = Inr (up_h, down_h)"
    "window_seconds P db sid (get_store_timezone_str P db sid) (get_business_hours_map db sid)
       (now - timedelta_days 1) now = Inr (up_d, down_d)"
    "window_seconds P db sid (get_store_timezone_str P db sid) (get_business_hours_map db sid)
       (now - timedelta_days 7) now = Inr (up_w, down_w)"
    "m = \<lparr> uptime_last_hour = py_int (float_div up_h 60), downtime_last_hour = py_int (float_div down_h 60),
           uptime_last_day = py_round2 (float_div up_d 3600), downtime_last_day = py_round2 (float_div down_d 3600),
           uptime_last_week = py_round2 (float_div up_w 3600),
           downtime_last_week = py_round2 (float_div down_w 3600) \<rparr>"
  using assms
  by (auto simp: metrics_for_store_def to_aware_utc_def Let_def split: sum.splits prod.splits)

section \<open>Metrics\<close>

lemma nearest_hundredth_two_decimals: "two_decimals (nearest_hundredth x)"
  by (simp add: two_decimals_def nearest_hundredth_def)

lemma nearest_hundredth_error: "\<bar>nearest_hundredth x - x\<bar> \<le> 1 / 200"
proof -
  have "\<bar>of_int (round_half_even (x * 100)) - x * 100\<bar> \<le> 1 / 2" by (rule round_half_even_error)
  then have "\<bar>(of_int (round_half_even (x * 100)) - x * 100) / 100\<bar> \<le> (1 / 2) / 100"
    by (simp add: abs_divide del: of_int_diff)
  then show ?thesis by (simp add: nearest_hundredth_def diff_divide_distrib)
qed

lemma py_int_nonneg: "0 \<le> x \<Longrightarrow> py_int x = \<lfloor>x\<rfloor>"
  by (simp add: py_int_def)

lemma last_window_nonneg:
  assumes "last_window P db sid now len = Inr (up, down)"
  shows "0 \<le> up \<and> 0 \<le> down"
  using assms window_seconds_nonneg by (simp add: last_window_def)

lemma metrics_fields:
  assumes "metrics_for_store P db sid now = Inr m"
    "last_window P db sid now (timedelta_hours 1) = Inr (up_h, down_h)"
    "last_window P db sid now (timedelta_days 1) = Inr (up_d, down_d)"
    "last_window P db sid now (timedelta_days 7) = Inr (up_w, down_w)"
  shows "m = \<lparr> uptime_last_hour = py_int (float_div up_h 60),
           downtime_last_hour = py_int (float_div down_h 60),
           uptime_last_day = py_round2 (float_div up_d 3600),
           downtime_last_day = py_round2 (float_div down_d 3600),
           uptime_last_week = py_round2 (float_div up_w 3600),
           downtime_last_week = py_round2 (float_div down_w 3600) \<rparr>"
  using assms by (simp add: metrics_for_store_def last_window_def Let_def)

text \<open>
  C7. With \<open>(up_h, down_h)\<close>, \<open>(up_d, down_d)\<close> and \<open>(up_w, down_w)\<close> the float seconds
  accumulated for the hour, day and week windows: the seconds are not negative; the hour
  fields are the whole minutes \<open>\<lfloor>seconds / 60\<rfloor>\<close> of the float quotient (truncation and floor
  agree); every day and week field is the float nearest to a number with two decimal places
  that lies within 1/200 of the float quotient \<open>seconds / 3600\<close>, that is the float hours
  rounded to two decimal places.
\<close>

theorem metrics_unit_conversion:
  assumes "metrics_for_store P db sid now = Inr m"
    and "last_window P db sid now (timedelta_hours 1) = Inr (up_h, down_h)"
    and "last_window P db sid now (timedelta_days 1) = Inr (up_d, down_d)"
    and "last_window P db sid now (timedelta_days 7) = Inr (up_w, down_w)"
  shows "0 \<le> up_h \<and> 0 \<le> down_h \<and>
         uptime_last_hour m = \<lfloor>float_div up_h 60\<rfloor> \<and>
         downtime_last_hour m = \<lfloor>float_div down_h 60\<rfloor> \<and>
         uptime_last_day m = round_to_double (nearest_hundredth (float_div up_d 3600)) \<and>
         two_decimals (nearest_hundredth (float_div up_d 3600)) \<and>
         \<bar>nearest_hundredth (float_div up_d 3600) - float_div up_d 3600\<bar> \<le> 1 / 200 \<and>
         downtime_last_day m = round_to_double (nearest_hundredth (float_div down_d 3600)) \<and>
         two_decimals (nearest_hundredth (float_div down_d 3600)) \<and>
         \<bar>nearest_hundredth (float_div down_d 3600) - float_div down_d 3600\<bar> \<le> 1 / 200 \<and>
         uptime_last_week m = round_to_double (nearest_hundredth (float_div up_w 3600)) \<and>
         two_decimals (nearest_hundredth (float_div up_w 3600)) \<and>
         \<bar>nearest_hundredth (float_div up_w 3600) - float_div up_w 3600\<bar> \<le> 1 / 200 \<and>
         downtime_last_week m = round_to_double (nearest_hundredth (float_div down_w 3600)) \<and>
         two_decimals (nearest_hundredth (float_div down_w 3600)) \<and>
         \<bar>nearest_hundredth (float_div down_w 3600) - float_div down_w 3600\<bar> \<le> 1 / 200"
proof -
  from last_window_nonneg[OF assms(2)] have nn: "0 \<le> up_h" "0 \<le> down_h" by auto
  then have "0 \<le> float_div up_h 60" "0 \<le> float_div down_h 60"
    by (simp_all add: float_div_nonneg)
  then have "py_int (float_div up_h 60) = \<lfloor>float_div up_h 60\<rfloor>"
    "py_int (float_div down_h 60) = \<lfloor>float_div down_h 60\<rfloor>"
    by (simp_all add: py_int_nonneg)
  with nn metrics_fields[OF assms] nearest_hundredth_error[of "float_div up_d 3600"]
    nearest_hundredth_error[of "float_div down_d 3600"]
    nearest_hundredth_error[of "float_div up_w 3600"]
    nearest_hundredth_error[of "float_div down_w 3600"]
  show ?thesis by (simp add: nearest_hundredth_two_decimals py_round2_def)
qed

lemmas window_eval = last_window_def window_seconds_def get_business_hours_map_def
  expand_business_hours_to_utc_def to_aware_utc_def timedelta_hours_def timedelta_days_def
  accumulate_overlaps_def status_segments_def query_observations_def segments_of_obs_def
  initial_status_def overlap_step_def Let_def

lemmas exact_eval = total_seconds_def float_div_def float_add_def round_to_double_numeral
  round_to_double_0

lemma ninety_hour:
  "last_window no_zones ninety_db ''s'' 691200000000 (timedelta_hours 1) = Inr (90, 3510)"
  by (simp add: ninety_db_def window_eval exact_eval)

lemma ninety_day:
  "last_window no_zones ninety_db ''s'' 691200000000 (timedelta_days 1) = Inr (90, 86310)"
  by (simp add: ninety_db_def window_eval exact_eval)

lemma ninety_week:
  "last_window no_zones ninety_db ''s'' 691200000000 (timedelta_days 7) = Inr (90, 604710)"
  by (simp add: ninety_db_def window_eval exact_eval)

lemma ninety_quotients:
  "float_div 90 60 = 3 / 2" "float_div 3510 60 = 117 / 2"
  "float_div 90 3600 = 3602879701896397 / 144115188075855872"
  "float_div 86310 3600 = 3374181283318989 / 140737488355328"
  "float_div 604710 3600 = 5910094901621555 / 35184372088832"
  by (simp_all add: float_eval)

lemma ninety_rounded:
  "py_round2 (3602879701896397 / 144115188075855872) = 1080863910568919 / 36028797018963968"
  "py_round2 (3374181283318989 / 140737488355328) = 6749769941521531 / 281474976710656"
  "py_round2 (5910094901621555 / 35184372088832) = 5909918979761111 / 35184372088832"
  by (simp_all add: float_eval)

lemma ninety_metrics:
  "metrics_for_store no_zones ninety_db ''s'' 691200000000 =
     Inr \<lparr> uptime_last_hour = 1, downtime_last_hour = 58,
           uptime_last_day = 1080863910568919 / 36028797018963968,
           downtime_last_day = 6749769941521531 / 281474976710656,
           uptime_last_week = 1080863910568919 / 36028797018963968,
           downtime_last_week = 5909918979761111 / 35184372088832 \<rparr>"
  using ninety_hour ninety_day ninety_week
  by (simp add: metrics_for_store_def last_window_def to_aware_utc_def Let_def
      ninety_quotients ninety_rounded py_int_def floor_numeral_div)

theorem metrics_unit_conversion_witness:
  "metrics_for_store no_zones ninety_db ''s'' 691200000000 =
     Inr \<lparr> uptime_last_hour = 1, downtime_last_hour = 58,
           uptime_last_day = 1080863910568919 / 36028797018963968,
           downtime_last_day = 6749769941521531 / 281474976710656,
           uptime_last_week = 1080863910568919 / 36028797018963968,
           downtime_last_week = 5909918979761111 / 35184372088832 \<rparr> \<and>
   last_window no_zones ninety_db ''s'' 691200000000 (timedelta_hours 1) = Inr (90, 3510) \<and>
   last_window no_zones ninety_db ''s'' 691200000000 (timedelta_days 1) = Inr (90, 86310) \<and>
   last_window no_zones ninety_db ''s'' 691200000000 (timedelta_days 7) = Inr (90, 604710) \<and>
   float_div 90 60 = 3 / 2 \<and> \<lfloor>float_div 90 60\<rfloor> = 1 \<and>
   float_div 3510 60 = 117 / 2 \<and> \<lfloor>float_div 3510 60\<rfloor> = 58 \<and>
   float_div 90 3600 = 3602879701896397 / 144115188075855872 \<and>
   nearest_hundredth (float_div 90 3600) = 3 / 100 \<and>
   two_decimals (nearest_hundredth (float_div 90 3600)) \<and>
   round_to_double (3 / 100) = 1080863910568919 / 36028797018963968 \<and>
   nearest_hundredth (float_div 86310 3600) = 2398 / 100 \<and>
   round_to_double (2398 / 100) = 6749769941521531 / 281474976710656 \<and>
   nearest_hundredth (float_div 604710 3600) = 16797 / 100 \<and>
   round_to_double (16797 / 100) = 5909918979761111 / 35184372088832"
proof -
  have n: "nearest_hundredth (float_div 90 3600) = 3 / 100"
    "nearest_hundredth (float_div 86310 3600) = 2398 / 100"
    "nearest_hundredth (float_div 604710 3600) = 16797 / 100"
    by (simp_all add: ninety_quotients nearest_hundredth_def round_half_even_def Let_def
          floor_numeral_div)
  have f: "\<lfloor>float_div 90 60\<rfloor> = 1" "\<lfloor>float_div 3510 60\<rfloor> = 58"
    by (simp_all add: ninety_quotients floor_numeral_div)
  have r: "round_to_double (3 / 100) = 1080863910568919 / 36028797018963968"
    "round_to_double (2398 / 100) = 6749769941521531 / 281474976710656"
    "round_to_double (16797 / 100) = 5909918979761111 / 35184372088832"
    by (simp_all add: float_eval)
  from metrics_unit_conversion [OF ninety_metrics ninety_hour ninety_day ninety_week]
  have t: "two_decimals (nearest_hundredth (float_div 90 3600))" by blast
  show ?thesis
    using ninety_metrics ninety_hour ninety_day ninety_week ninety_quotients(1,2,3) n f r t
    by blast
qed













section \<open>Report generation\<close>

lemma collect_results_eq:
  "collect_results result order rs fs =
     (rs @ map (row_of result) (filter (succeeded result) order),
      fs @ filter (\<lambda>sid. \<not> succeeded result sid) order)"
proof (induction order arbitrary: rs fs)
  case Nil show ?case by simp
next
  case (Cons sid rest)
  show ?case
  proof (cases "result sid")
    case (Inl e)
    with Cons.IH[of rs "fs @ [sid]"] show ?thesis by (simp add: succeeded_def)
  next
    case (Inr m)
    with Cons.IH[of "rs @ [\<lparr> row_store_id = sid, row_metrics = m \<rparr>]" fs] show ?thesis
      by (simp add: succeeded_def row_of_def)
  qed
qed

lemma insort_key_map:
  "insort_key f (g x) (map g ys) = map g (insort_key (\<lambda>y. f (g y)) x ys)"
  by (induction ys) auto

lemma sort_key_map: "sort_key f (map g xs) = map g (sort_key (\<lambda>y. f (g y)) xs)"
  by (induction xs) (auto simp: insort_key_map)

lemma generate_report_optimized_eq:
  "generate_report_optimized result completed =
     (map (row_of result) (sort (filter (succeeded result) completed)),
      filter (\<lambda>sid. \<not> succeeded result sid) completed)"
  by (simp add: generate_report_optimized_def collect_results_eq sort_key_map row_of_def)

lemma sort_cong_mset: "mset xs = mset ys \<Longrightarrow> sort xs = sort (ys :: string list)"
  by (rule properties_for_sort) simp_all

text \<open>
  C3. Whatever arrangement of the submitted store ids the completion order is, and
  whichever stores fail: the call returns rows (a failure of a store never aborts it), the
  rows are exactly those of the stores that succeeded, each with the metrics computed for
  it, the failed stores are exactly the others, the rows are sorted ascending by store id,
  and the rows do not depend on the completion order.
\<close>

theorem report_rows_sorted_and_complete:
  assumes "mset completed = mset store_ids"
  shows "map row_store_id (fst (generate_report_optimized result completed))
           = sort (filter (succeeded result) store_ids) \<and>
         sorted (map row_store_id (fst (generate_report_optimized result completed))) \<and>
         list_all (\<lambda>row. result (row_store_id row) = Inr (row_metrics row))
           (fst (generate_report_optimized result completed)) \<and>
         mset (snd (generate_report_optimized result completed))
           = mset (filter (\<lambda>sid. \<not> succeeded result sid) store_ids) \<and>
         fst (generate_report_optimized result completed)
           = fst (generate_report_optimized result store_ids)"
proof -
  from assms have "mset (filter (succeeded result) completed) = mset (filter (succeeded result) store_ids)"
    by simp
  then have s: "sort (filter (succeeded result) completed) = sort (filter (succeeded result) store_ids)"
    by (rule sort_cong_mset)
  have ids: "map row_store_id (map (row_of result) xs) = xs" for xs
    by (induction xs) (simp_all add: row_of_def)
  have ok: "list_all (\<lambda>row. result (row_store_id row) = Inr (row_metrics row))
              (map (row_of result) (sort (filter (succeeded result) store_ids)))"
    by (auto simp: list_all_iff row_of_def succeeded_def)
  from assms have f: "mset (filter (\<lambda>sid. \<not> succeeded result sid) completed)
     = mset (filter (\<lambda>sid. \<not> succeeded result sid) store_ids)" by simp
  show ?thesis using s ids ok f by (simp add: generate_report_optimized_eq)
qed

lemma b_fails_run:
  "generate_report_optimized b_fails [''c'', ''b'', ''a''] =
     ([\<lparr> row_store_id = ''a'', row_metrics = zero_metrics \<rparr>,
       \<lparr> row_store_id = ''c'', row_metrics = zero_metrics \<rparr>], [''b''])"
  by (simp add: generate_report_optimized_def b_fails_def)

theorem report_rows_witness:
  "mset [''c'', ''b'', ''a''] = mset [''a'', ''b'', ''c''] \<and>
   generate_report_optimized b_fails [''c'', ''b'', ''a''] =
     ([\<lparr> row_store_id = ''a'', row_metrics = zero_metrics \<rparr>,
       \<lparr> row_store_id = ''c'', row_metrics = zero_metrics \<rparr>], [''b'']) \<and>
   fst (generate_report_optimized b_fails [''a'', ''b'', ''c'']) =
     [\<lparr> row_store_id = ''a'', row_metrics = zero_metrics \<rparr>,
      \<lparr> row_store_id = ''c'', row_metrics = zero_metrics \<rparr>] \<and>
   sort (filter (succeeded b_fails) [''a'', ''b'', ''c'']) = [''a'', ''c'']"
proof -
  have p: "mset [''c'', ''b'', ''a''] = mset [''a'', ''b'', ''c'']" by simp
  have s: "sort (filter (succeeded b_fails) [''a'', ''b'', ''c'']) = [''a'', ''c'']"
    by (simp add: succeeded_def b_fails_def)
  from report_rows_sorted_and_complete [OF p, of b_fails] b_fails_run s p
  show ?thesis by simp
qed

section \<open>Rules that span midnight\<close>

lemma in_clip_to_window:
  assumes "s < e" "ws \<le> s" "e \<le> we"
  shows "clip_to_window ws we (s, e) = [(s, e)]"
  using assms by (simp add: clip_to_window_def Let_def)

lemma expand_covers_rule:
  assumes "timezone P tz_str = Some tz"
    and "d \<in> set (scan_dates tz ws we)"
    and "r \<in> set (dict_get bh_map (weekday d))"
    and "fst (rule_interval_utc tz d r) < snd (rule_interval_utc tz d r)"
    and "ws \<le> fst (rule_interval_utc tz d r)" "snd (rule_interval_utc tz d r) \<le> we"
  shows "\<exists>bhs. expand_business_hours_to_utc P tz_str bh_map ws we = Inr bhs \<and>
               covered_by (rule_interval_utc tz d r) bhs"
proof -
  from assms(3) have ne: "bh_map \<noteq> []" by (auto simp: dict_get_def)
  let ?c = "concat (map (day_intervals tz bh_map ws we) (scan_dates tz ws we))"
  obtain s e where i: "rule_interval_utc tz d r = (s, e)" by (cases "rule_interval_utc tz d r")
  with assms(4-6) have "clip_to_window ws we (rule_interval_utc tz d r) = [(s, e)]"
    by (simp add: in_clip_to_window)
  with assms(3) have "(s, e) \<in> set (day_intervals tz bh_map ws we d)"
    by (force simp: day_intervals_def Let_def)
  with assms(2) have "(s, e) \<in> set ?c" by auto
  then have "covered_by (s, e) (merge_utc_intervals ?c)" by (rule merge_utc_intervals_covered_by)
  with expand_Some[OF assms(1) ne, of ws we] i show ?thesis by simp
qed

text \<open>
  C5. A rule with \<open>start_local > end_local\<close> on the weekday of date \<open>d\<close> gives the single
  UTC interval from \<open>d\<close> at \<open>start_local\<close> to \<open>d + 1\<close> at \<open>end_local\<close>. When \<open>d\<close> is among
  the scanned dates, the interval is not empty and the window covers it, the expander's
  result has one interval that contains all of it: the span across local midnight is not
  cut in two.
\<close>

theorem overnight_rule_single_interval:
  assumes "timezone P tz_str = Some tz"
    and "(start_t, end_t) \<in> set (dict_get bh_map (weekday d))"
    and "end_t < start_t"
  shows "rule_interval_utc tz d (start_t, end_t)
           = (localize_to_utc tz (combine d start_t), localize_to_utc tz (combine (d + 1) end_t)) \<and>
         (d \<in> set (scan_dates tz ws we) \<longrightarrow>
          localize_to_utc tz (combine d start_t) < localize_to_utc tz (combine (d + 1) end_t) \<longrightarrow>
          ws \<le> localize_to_utc tz (combine d start_t) \<longrightarrow>
          localize_to_utc tz (combine (d + 1) end_t) \<le> we \<longrightarrow>
          (\<exists>bhs. expand_business_hours_to_utc P tz_str bh_map ws we = Inr bhs \<and>
             covered_by (localize_to_utc tz (combine d start_t),
                         localize_to_utc tz (combine (d + 1) end_t)) bhs))"
proof -
  have r: "rule_interval_utc tz d (start_t, end_t)
           = (localize_to_utc tz (combine d start_t), localize_to_utc tz (combine (d + 1) end_t))"
    using assms(3) by (simp add: rule_interval_utc_def)
  show ?thesis using r expand_covers_rule[OF assms(1) _ assms(2), of ws we] by auto
qed

lemma friday_night:
  "expand_business_hours_to_utc chicago_cdt ''America/Chicago'' [(4, [(time_hm 22 0, time_hm 6 0)])]
     (utc_ymd_hm 20210 0 0) (utc_ymd_hm 20211 23 59)
   = Inr [(utc_ymd_hm 20211 3 0, utc_ymd_hm 20211 11 0)]"
  by code_simp

theorem overnight_rule_witness:
  "timezone chicago_cdt ''America/Chicago'' = Some (fixed_offset (timedelta_hours (- 5))) \<and>
   (time_hm 22 0, time_hm 6 0) \<in> set (dict_get friday_night_rules (weekday 20210)) \<and>
   time_hm 6 0 < time_hm 22 0 \<and>
   rule_interval_utc (fixed_offset (timedelta_hours (- 5))) 20210 (time_hm 22 0, time_hm 6 0)
     = (utc_ymd_hm 20211 3 0, utc_ymd_hm 20211 11 0) \<and>
   20210 \<in> set (scan_dates (fixed_offset (timedelta_hours (- 5)))
                   (utc_ymd_hm 20210 0 0) (utc_ymd_hm 20211 23 59)) \<and>
   utc_ymd_hm 20210 0 0 \<le> utc_ymd_hm 20211 3 0 \<and>
   utc_ymd_hm 20211 3 0 < utc_ymd_hm 20211 11 0 \<and>
   utc_ymd_hm 20211 11 0 \<le> utc_ymd_hm 20211 23 59 \<and>
   expand_business_hours_to_utc chicago_cdt ''America/Chicago'' friday_night_rules
     (utc_ymd_hm 20210 0 0) (utc_ymd_hm 20211 23 59)
     = Inr [(utc_ymd_hm 20211 3 0, utc_ymd_hm 20211 11 0)] \<and>
   covered_by (utc_ymd_hm 20211 3 0, utc_ymd_hm 20211 11 0)
     [(utc_ymd_hm 20211 3 0, utc_ymd_hm 20211 11 0)]"
proof -
  let ?tz = "fixed_offset (timedelta_hours (- 5))"
  let ?ws = "utc_ymd_hm 20210 0 0" and ?we = "utc_ymd_hm 20211 23 59"
  have a: "timezone chicago_cdt ''America/Chicago'' = Some ?tz" by (simp add: chicago_cdt_def)
  have b: "(time_hm 22 0, time_hm 6 0) \<in> set (dict_get friday_night_rules (weekday 20210))"
    by (simp add: friday_night_rules_def dict_get_def weekday_def)
  have c: "time_hm 6 0 < time_hm 22 0" by (simp add: time_hm_def)
  have s: "localize_to_utc ?tz (combine 20210 (time_hm 22 0)) = utc_ymd_hm 20211 3 0"
    and e: "localize_to_utc ?tz (combine (20210 + 1) (time_hm 6 0)) = utc_ymd_hm 20211 11 0"
    by (simp_all add: localize_to_utc_def fixed_offset_def combine_def time_hm_def utc_ymd_hm_def
          timedelta_hours_def)
  have d: "20210 \<in> set (scan_dates ?tz ?ws ?we)" by code_simp
  have o: "?ws \<le> utc_ymd_hm 20211 3 0" "utc_ymd_hm 20211 3 0 < utc_ymd_hm 20211 11 0"
    "utc_ymd_hm 20211 11 0 \<le> ?we"
    by (simp_all add: utc_ymd_hm_def combine_def time_hm_def)
  have x: "expand_business_hours_to_utc chicago_cdt ''America/Chicago'' friday_night_rules ?ws ?we
     = Inr [(utc_ymd_hm 20211 3 0, utc_ymd_hm 20211 11 0)]" by code_simp
  from overnight_rule_single_interval [OF a b c, of ?ws ?we] s e d o x
  show ?thesis using a b c by auto
qed

text \<open>
  C6. A rule from 00:00 to 00:00 on the weekday of date \<open>d\<close> gives the interval from
  midnight of \<open>d\<close> to midnight of \<open>d + 1\<close>: 24 hours of local wall-clock time, and in UTC
  24 hours corrected by the change of the zone's offset between the two midnights (exactly
  24 hours when the offset is the same). When \<open>d\<close> is among the scanned dates, the
  interval is not empty and the window covers it, one interval of the expander's result
  contains the whole day.
\<close>

theorem midnight_rule_full_day:
  assumes "timezone P tz_str = Some tz"
    and "(0, 0) \<in> set (dict_get bh_map (weekday d))"
  shows "rule_interval_utc tz d (0, 0)
           = (localize_to_utc tz (combine d 0), localize_to_utc tz (combine (d + 1) 0)) \<and>
         combine (d + 1) 0 - combine d 0 = timedelta_days 1 \<and>
         snd (rule_interval_utc tz d (0, 0)) - fst (rule_interval_utc tz d (0, 0))
           = timedelta_days 1 + utcoffset_at_local tz (combine d 0)
               - utcoffset_at_local tz (combine (d + 1) 0) \<and>
         (d \<in> set (scan_dates tz ws we) \<longrightarrow>
          localize_to_utc tz (combine d 0) < localize_to_utc tz (combine (d + 1) 0) \<longrightarrow>
          ws \<le> localize_to_utc tz (combine d 0) \<longrightarrow>
          localize_to_utc tz (combine (d + 1) 0) \<le> we \<longrightarrow>
          (\<exists>bhs. expand_business_hours_to_utc P tz_str bh_map ws we = Inr bhs \<and>
             covered_by (localize_to_utc tz (combine d 0),
                         localize_to_utc tz (combine (d + 1) 0)) bhs))"
proof -
  have r: "rule_interval_utc tz d (0, 0)
           = (localize_to_utc tz (combine d 0), localize_to_utc tz (combine (d + 1) 0))"
    by (simp add: rule_interval_utc_def)
  have l: "combine (d + 1) 0 - combine d 0 = timedelta_days 1"
    by (simp add: combine_def timedelta_days_def algebra_simps)
  have u: "snd (rule_interval_utc tz d (0, 0)) - fst (rule_interval_utc tz d (0, 0))
           = timedelta_days 1 + utcoffset_at_local tz (combine d 0)
               - utcoffset_at_local tz (combine (d + 1) 0)"
    using l by (simp add: r localize_to_utc_def)
  show ?thesis using r l u expand_covers_rule[OF assms(1) _ assms(2), of ws we] by auto
qed

theorem midnight_rule_witness:
  "timezone chicago_cdt ''America/Chicago'' = Some (fixed_offset (timedelta_hours (- 5))) \<and>
   (0, 0) \<in> set (dict_get tuesday_all_day (weekday 20214)) \<and>
   rule_interval_utc (fixed_offset (timedelta_hours (- 5))) 20214 (0, 0)
     = (utc_ymd_hm 20214 5 0, utc_ymd_hm 20215 5 0) \<and>
   utc_ymd_hm 20215 5 0 - utc_ymd_hm 20214 5 0 = timedelta_days 1 \<and>
   20214 \<in> set (scan_dates (fixed_offset (timedelta_hours (- 5)))
                   (utc_ymd_hm 20214 0 0) (utc_ymd_hm 20215 12 0)) \<and>
   utc_ymd_hm 20214 0 0 \<le> utc_ymd_hm 20214 5 0 \<and>
   utc_ymd_hm 20214 5 0 < utc_ymd_hm 20215 5 0 \<and>
   utc_ymd_hm 20215 5 0 \<le> utc_ymd_hm 20215 12 0 \<and>
   expand_business_hours_to_utc chicago_cdt ''America/Chicago'' tuesday_all_day
     (utc_ymd_hm 20214 0 0) (utc_ymd_hm 20215 12 0)
     = Inr [(utc_ymd_hm 20214 5 0, utc_ymd_hm 20215 5 0)] \<and>
   covered_by (utc_ymd_hm 20214 5 0, utc_ymd_hm 20215 5 0)
     [(utc_ymd_hm 20214 5 0, utc_ymd_hm 20215 5 0)]"
proof -
  let ?tz = "fixed_offset (timedelta_hours (- 5))"
  let ?ws = "utc_ymd_hm 20214 0 0" and ?we = "utc_ymd_hm 20215 12 0"
  have a: "timezone chicago_cdt ''America/Chicago'' = Some ?tz" by (simp add: chicago_cdt_def)
  have b: "(0, 0) \<in> set (dict_get tuesday_all_day (weekday 20214))"
    by (simp add: tuesday_all_day_def dict_get_def weekday_def)
  have s: "localize_to_utc ?tz (combine 20214 0) = utc_ymd_hm 20214 5 0"
    and e: "localize_to_utc ?tz (combine (20214 + 1) 0) = utc_ymd_hm 20215 5 0"
    by (simp_all add: localize_to_utc_def fixed_offset_def combine_def time_hm_def utc_ymd_hm_def
          timedelta_hours_def)
  have d: "20214 \<in> set (scan_dates ?tz ?ws ?we)" by code_simp
  have o: "?ws \<le> utc_ymd_hm 20214 5 0" "utc_ymd_hm 20214 5 0 < utc_ymd_hm 20215 5 0"
    "utc_ymd_hm 20215 5 0 \<le> ?we"
    "utc_ymd_hm 20215 5 0 - utc_ymd_hm 20214 5 0 = timedelta_days 1"
    by (simp_all add: utc_ymd_hm_def combine_def time_hm_def timedelta_days_def)
  have x: "expand_business_hours_to_utc chicago_cdt ''America/Chicago'' tuesday_all_day ?ws ?we
     = Inr [(utc_ymd_hm 20214 5 0, utc_ymd_hm 20215 5 0)]" by code_simp
  from midnight_rule_full_day [OF a b, of ?ws ?we] s e d o x
  show ?thesis using a b by auto
qed

section \<open>Stores without observations\<close>

lemma no_obs_segments:
  "query_observations db sid we = [] \<Longrightarrow> status_segments db sid ws we = [(ws, we, ''inactive'')]"
  by (simp add: status_segments_def segments_of_obs_def to_aware_utc_def)

lemma inactive_steps:
  "fst (foldl (overlap_step (s, e, ''inactive'')) (0, x) bhs) = 0"
proof (induction bhs arbitrary: x)
  case Nil show ?case by simp
next
  case (Cons bh bhs)
  obtain a b where bh: "bh = (a, b)" by (cases bh)
  have "fst (overlap_step (s, e, ''inactive'') (0, x) bh) = 0"
    by (simp add: bh overlap_step_def Let_def)
  then obtain y where "overlap_step (s, e, ''inactive'') (0, x) bh = (0, y)"
    by (cases "overlap_step (s, e, ''inactive'') (0, x) bh") simp
  with Cons.IH[of y] show ?case by simp
qed

lemma no_obs_window_up:
  assumes "query_observations db sid we = []"
    "window_seconds P db sid tz_str bh_map ws we = Inr (up, down)"
  shows "up = 0"
proof -
  from assms(2) obtain bhs where e: "expand_business_hours_to_utc P tz_str bh_map ws we = Inr bhs"
    by (auto simp: window_seconds_def split: sum.splits)
  show ?thesis
  proof (cases "bhs = []")
    case True with assms(2) e show ?thesis by (simp add: window_seconds_def)
  next
    case False
    with assms(2) e no_obs_segments[OF assms(1), of ws]
    have "accumulate_overlaps [(ws, we, ''inactive'')] bhs = (up, down)"
      by (simp add: window_seconds_def)
    with inactive_steps[of ws we 0 bhs] show ?thesis by (simp add: accumulate_overlaps_def)
  qed
qed

lemma no_obs_open_window:
  assumes "query_observations db sid we = []" "ws < we"
  shows "window_seconds P db sid tz_str [] ws we = Inr (0, float_add 0 (total_seconds (we - ws)))"
  using assms no_obs_segments[OF assms(1), of ws]
  by (simp add: window_seconds_def expand_empty_map accumulate_overlaps_def overlap_step_def Let_def)

lemma py_round2_0: "py_round2 0 = 0"
  by (simp add: py_round2_def nearest_hundredth_def round_half_even_def round_to_double_0)

lemma py_round2_whole:
  "py_round2 24 = 24" "py_round2 168 = 168" "py_round2 8 = 8"
  by (simp_all add: py_round2_def nearest_hundredth_def round_half_even_def
        round_to_double_numeral)

text \<open>
  C4 (as amended). For a store with no observations up to \<open>now\<close>, the timeline of every
  window ending at \<open>now\<close> is the single segment covering the window with status inactive,
  and uptime is 0 in the three windows. When the store has no business-hours rules either,
  downtime is the window length: 60 minutes, 24 hours and 168 hours.
\<close>

theorem no_observations_metrics:
  assumes "query_observations db sid now = []"
  shows "status_segments db sid ws now = [(ws, now, ''inactive'')] \<and>
         (metrics_for_store P db sid now = Inr m \<longrightarrow>
            uptime_last_hour m = 0 \<and> uptime_last_day m = 0 \<and> uptime_last_week m = 0) \<and>
         (get_business_hours_map db sid = [] \<longrightarrow>
            metrics_for_store P db sid now =
              Inr \<lparr> uptime_last_hour = 0, downtime_last_hour = 60,
                    uptime_last_day = 0, downtime_last_day = 24,
                    uptime_last_week = 0, downtime_last_week = 168 \<rparr>)"
proof (intro conjI impI)
  show "status_segments db sid ws now = [(ws, now, ''inactive'')]"
    using assms by (rule no_obs_segments)
next
  assume m: "metrics_for_store P db sid now = Inr m"
  then obtain up_h down_h up_d down_d up_w down_w where
    h: "window_seconds P db sid (get_store_timezone_str P db sid) (get_business_hours_map db sid)
       (now - timedelta_hours 1) now = Inr (up_h, down_h)" and
    d: "window_seconds P db sid (get_store_timezone_str P db sid) (get_business_hours_map db sid)
       (now - timedelta_days 1) now = Inr (up_d, down_d)" and
    w: "window_seconds P db sid (get_store_timezone_str P db sid) (get_business_hours_map db sid)
       (now - timedelta_days 7) now = Inr (up_w, down_w)" and
    e: "m = \<lparr> uptime_last_hour = py_int (float_div up_h 60),
           downtime_last_hour = py_int (float_div down_h 60),
           uptime_last_day = py_round2 (float_div up_d 3600),
           downtime_last_day = py_round2 (float_div down_d 3600),
           uptime_last_week = py_round2 (float_div up_w 3600),
           downtime_last_week = py_round2 (float_div down_w 3600) \<rparr>"
    by (rule metrics_for_store_Inr)
  from no_obs_window_up[OF assms h] no_obs_window_up[OF assms d] no_obs_window_up[OF assms w] e
  show "uptime_last_hour m = 0" "uptime_last_day m = 0" "uptime_last_week m = 0"
    by (simp_all add: py_int_def py_round2_0 float_div_def round_to_double_0)
next
  assume b: "get_business_hours_map db sid = []"
  have "now - timedelta_hours 1 < now" "now - timedelta_days 1 < now" "now - timedelta_days 7 < now"
    by (simp_all add: timedelta_hours_def timedelta_days_def)
  then have
    "window_seconds P db sid (get_store_timezone_str P db sid) [] (now - timedelta_hours 1) now
       = Inr (0, 3600)"
    "window_seconds P db sid (get_store_timezone_str P db sid) [] (now - timedelta_days 1) now
       = Inr (0, 86400)"
    "window_seconds P db sid (get_store_timezone_str P db sid) [] (now - timedelta_days 7) now
       = Inr (0, 604800)"
    using assms
    by (simp_all add: no_obs_open_window timedelta_hours_def timedelta_days_def exact_eval)
  with b show "metrics_for_store P db sid now =
              Inr \<lparr> uptime_last_hour = 0, downtime_last_hour = 60,
                    uptime_last_day = 0, downtime_last_day = 24,
                    uptime_last_week = 0, downtime_last_week = 168 \<rparr>"
    by (simp add: metrics_for_store_def to_aware_utc_def Let_def py_int_def py_round2_0
        py_round2_whole float_div_def round_to_double_numeral round_to_double_0)
qed

theorem no_observations_witness:
  "query_observations empty_db ''s'' (utc_ymd_hm 20214 12 0) = [] \<and>
   get_business_hours_map empty_db ''s'' = [] \<and>
   status_segments empty_db ''s'' (utc_ymd_hm 20214 11 0) (utc_ymd_hm 20214 12 0)
     = [(utc_ymd_hm 20214 11 0, utc_ymd_hm 20214 12 0, ''inactive'')] \<and>
   metrics_for_store no_zones empty_db ''s'' (utc_ymd_hm 20214 12 0) =
     Inr \<lparr> uptime_last_hour = 0, downtime_last_hour = 60,
           uptime_last_day = 0, downtime_last_day = 24,
           uptime_last_week = 0, downtime_last_week = 168 \<rparr>"
proof -
  have q: "query_observations empty_db ''s'' (utc_ymd_hm 20214 12 0) = []"
    by (simp add: query_observations_def empty_db_def)
  have b: "get_business_hours_map empty_db ''s'' = []"
    by (simp add: get_business_hours_map_def empty_db_def)
  from no_observations_metrics [OF q, of "utc_ymd_hm 20214 11 0" no_zones] q b
  show ?thesis by simp
qed

lemma monday_now: "utc_ymd_hm 20214 12 0 = 1746532800000000"
  by (simp add: utc_ymd_hm_def combine_def time_hm_def)

lemma monday_config:
  "get_store_timezone_str chicago_cdt monday_db ''s'' = ''America/Chicago''"
  "get_business_hours_map monday_db ''s'' = [(0, [(32400000000, 61200000000)])]"
  by (simp_all add: get_store_timezone_str_def get_business_hours_map_def monday_db_def
        time_hm_def)

lemma monday_expand:
  "expand_business_hours_to_utc chicago_cdt ''America/Chicago''
     [(0, [(32400000000, 61200000000)])] 1746529200000000 1746532800000000 = Inr []"
  "expand_business_hours_to_utc chicago_cdt ''America/Chicago''
     [(0, [(32400000000, 61200000000)])] 1746446400000000 1746532800000000
     = Inr [(1746453600000000, 1746482400000000)]"
  "expand_business_hours_to_utc chicago_cdt ''America/Chicago''
     [(0, [(32400000000, 61200000000)])] 1745928000000000 1746532800000000
     = Inr [(1746453600000000, 1746482400000000)]"
  by code_simp+

lemma monday_windows:
  "window_seconds chicago_cdt monday_db ''s'' ''America/Chicago''
     [(0, [(32400000000, 61200000000)])] 1746529200000000 1746532800000000 = Inr (0, 0)"
  "window_seconds chicago_cdt monday_db ''s'' ''America/Chicago''
     [(0, [(32400000000, 61200000000)])] 1746446400000000 1746532800000000 = Inr (0, 28800)"
  "window_seconds chicago_cdt monday_db ''s'' ''America/Chicago''
     [(0, [(32400000000, 61200000000)])] 1745928000000000 1746532800000000 = Inr (0, 28800)"
  by (simp_all add: window_seconds_def monday_expand status_segments_def query_observations_def
        monday_db_def segments_of_obs_def to_aware_utc_def accumulate_overlaps_def
        overlap_step_def Let_def exact_eval)

text \<open>
  C4 as stated fails for a store that has business-hours rules: with business hours on
  Monday from 09:00 to 17:00 (Chicago) and \<open>now\<close> on Tuesday 2025-05-06 at 12:00 UTC, the
  downtime is 0 minutes, 8 hours and 8 hours, not 60, 24 and 168.
\<close>

theorem no_observations_business_hours:
  "query_observations monday_db ''s'' (utc_ymd_hm 20214 12 0) = [] \<and>
   metrics_for_store chicago_cdt monday_db ''s'' (utc_ymd_hm 20214 12 0) =
     Inr \<lparr> uptime_last_hour = 0, downtime_last_hour = 0,
           uptime_last_day = 0, downtime_last_day = 8,
           uptime_last_week = 0, downtime_last_week = 8 \<rparr> \<and>
   metrics_for_store chicago_cdt monday_db ''s'' (utc_ymd_hm 20214 12 0) \<noteq>
     Inr \<lparr> uptime_last_hour = 0, downtime_last_hour = 60,
           uptime_last_day = 0, downtime_last_day = 24,
           uptime_last_week = 0, downtime_last_week = 168 \<rparr>"
proof -
  have q: "query_observations monday_db ''s'' (utc_ymd_hm 20214 12 0) = []"
    by (simp add: query_observations_def monday_db_def)
  have m: "metrics_for_store chicago_cdt monday_db ''s'' (utc_ymd_hm 20214 12 0) =
     Inr \<lparr> uptime_last_hour = 0, downtime_last_hour = 0,
           uptime_last_day = 0, downtime_last_day = 8,
           uptime_last_week = 0, downtime_last_week = 8 \<rparr>"
    by (simp add: metrics_for_store_def monday_now monday_config to_aware_utc_def
        timedelta_hours_def timedelta_days_def monday_windows Let_def py_int_def py_round2_0
        py_round2_whole float_div_def round_to_double_numeral round_to_double_0)
  show ?thesis using q m by simp
qed

end
